theory Spec2Isabelle
  imports Main "HOL-Library.AList" "HOL-Library.Multiset"
begin

section \<open>Library functions the program calls\<close>

subsection \<open>strconv.Atoi and the decimal rendering of an int\<close>

text \<open>
  Counters travel through Redis as decimal strings: \<open>HSet\<close> renders an \<open>int\<close> argument in
  decimal, \<open>HGet\<close> returns the stored string and the program parses it with
  \<open>strconv.Atoi\<close>. A Go \<open>int\<close> is taken to be 64 bits wide.

  \<open>Atoi\<close> returns a value and an error. A string that is not an optional sign followed by at
  least one decimal digit gives \<open>(0, syntax error)\<close>; a number outside the 64-bit range gives
  the nearest bound and a range error.
\<close>

datatype atoi_error = ErrSyntax | ErrRange

definition is_digit :: "char \<Rightarrow> bool" where
  "is_digit c = (48 \<le> (of_char c :: nat) \<and> (of_char c :: nat) \<le> 57)"

definition digit_val :: "char \<Rightarrow> nat" where
  "digit_val c = (of_char c :: nat) - 48"

definition digits_val :: "string \<Rightarrow> nat" where
  "digits_val ds = foldl (\<lambda>n c. n * 10 + digit_val c) 0 ds"

definition max_int :: int where
  "max_int = 9223372036854775807"

definition min_int :: int where
  "min_int = - 9223372036854775808"

definition Atoi :: "string \<Rightarrow> int \<times> atoi_error option" where
  "Atoi s =
     (let (neg, ds) =
            (case s of
               [] \<Rightarrow> (False, [])
             | c # r \<Rightarrow> if c = CHR ''-'' then (True, r)
                        else if c = CHR ''+'' then (False, r)
                        else (False, s))
      in if ds \<noteq> [] \<and> list_all is_digit ds
         then let n = int (digits_val ds)
              in if neg then (if - n < min_int then (min_int, Some ErrRange) else (- n, None))
                 else (if max_int < n then (max_int, Some ErrRange) else (n, None))
         else (0, Some ErrSyntax))"

definition digit_char :: "nat \<Rightarrow> char" where
  \<comment> \<open>the digit table of the formatter, indexed by a value below 10\<close>
  "digit_char d = ''0123456789'' ! d"

fun itoa_nat :: "nat \<Rightarrow> string" where
  "itoa_nat n = (if n < 10 then [digit_char n] else itoa_nat (n div 10) @ [digit_char (n mod 10)])"

declare itoa_nat.simps [simp del]

definition Itoa :: "int \<Rightarrow> string" where
  "Itoa i = (if i < 0 then CHR ''-'' # itoa_nat (nat (- i)) else itoa_nat (nat i))"

text \<open>Addition on a 64-bit \<open>int\<close> wraps around.\<close>

definition int_add :: "int \<Rightarrow> int \<Rightarrow> int" where
  "int_add a b = (a + b - min_int) mod 18446744073709551616 + min_int"

subsection \<open>math/rand\<close>

text \<open>
  Every use of the generator in the program is preceded by \<open>rand.Seed(time.Now().UnixNano())\<close>,
  so the numbers a call sees are an input from the environment. A seeded generator is
  represented by the sequence of its raw outputs: \<open>g k\<close> is the \<open>k\<close>-th one.
  \<open>rand.Intn(n)\<close> reduces a raw output to the range \<open>[0, n)\<close>; \<open>rand.Shuffle(n, swap)\<close> is the
  Fisher-Yates loop of the Go library, \<open>for i := n - 1; i > 0; i-- { j := Intn(i + 1); swap(i, j) }\<close>.
\<close>

type_synonym rng = "nat \<Rightarrow> nat"

definition Intn :: "nat \<Rightarrow> nat \<Rightarrow> nat" where
  "Intn r n = r mod n"

text \<open>The callback the program passes: \<open>deck[i], deck[j] = deck[j], deck[i]\<close>.\<close>

definition swap :: "nat \<Rightarrow> nat \<Rightarrow> 'a list \<Rightarrow> 'a list" where
  "swap i j xs = xs[i := xs ! j, j := xs ! i]"

fun shuffle_loop :: "rng \<Rightarrow> nat \<Rightarrow> nat \<Rightarrow> 'a list \<Rightarrow> 'a list" where
  "shuffle_loop g k 0 xs = xs"
| "shuffle_loop g k (Suc i) xs = shuffle_loop g (Suc k) i (swap (Suc i) (Intn (g k) (Suc i + 1)) xs)"

definition Shuffle :: "rng \<Rightarrow> 'a list \<Rightarrow> 'a list" where
  "Shuffle g xs = shuffle_loop g 0 (length xs - 1) xs"

text \<open>
  The indices \<open>j\<close> that the loop draws when it starts at index \<open>i\<close> with the \<open>k\<close>-th raw
  output: the first lies in \<open>[0, i + 1)\<close>, the next in \<open>[0, i)\<close>, down to \<open>[0, 2)\<close>.
\<close>

definition choices :: "rng \<Rightarrow> nat \<Rightarrow> nat \<Rightarrow> nat list" where
  "choices g k i = map (\<lambda>m. Intn (g (k + m)) (i - m + 1)) [0..<i]"

text \<open>
  All the sequences of indices that the loop can draw when it starts at index \<open>i\<close>, and
  the generator whose raw outputs are a given sequence.
\<close>

fun index_choices :: "nat \<Rightarrow> nat list list" where
  "index_choices 0 = [[]]"
| "index_choices (Suc i) = concat (map (\<lambda>j. map ((#) j) (index_choices i)) [0..<Suc i + 1])"

definition rng_of :: "nat list \<Rightarrow> rng" where
  "rng_of js k = (if k < length js then js ! k else 0)"

section \<open>The server state\<close>

text \<open>
  The program keeps its state in two globals: the Redis client \<open>rdb\<close> and the map \<open>clients\<close>
  of open WebSocket connections. Redis holds lists (the decks, under \<open>"deck:" + username\<close>) and
  hashes (\<open>"win"\<close> and \<open>"lose"\<close>, with one field per username, and \<open>"user:" + username\<close> with
  the field \<open>"defuse"\<close>). A list key and a hash key of this program never coincide, so the two
  kinds are kept in separate components. An absent key is the empty list or the empty hash,
  as in Redis. A hash is an association list; the order of its fields is the order in which
  \<open>HGetAll\<close> and Go's \<open>range\<close> present them, which Go leaves unspecified.

  A connection is a handle. \<open>delivered c\<close> is the sequence of leaderboard snapshots written to
  \<open>c\<close> so far, \<open>closed c\<close> says that \<open>c.Close()\<close> has been called.

  The Redis server is taken to be reachable: the branches of the program that handle a failed
  command are not part of the model, and \<open>redis.Nil\<close> (no such field) is \<open>None\<close>.
\<close>

type_synonym conn = nat

record user_stats =
  stat_username :: string
  stat_win :: string
  stat_lose :: string

record server =
  lists :: "string \<Rightarrow> string list"
  hashes :: "string \<Rightarrow> (string \<times> string) list"
  clients :: "conn list"
  delivered :: "conn \<Rightarrow> user_stats list list"
  closed :: "conn \<Rightarrow> bool"

subsection \<open>Redis commands\<close>

definition LRange_all :: "string \<Rightarrow> server \<Rightarrow> string list" where
  \<comment> \<open>\<open>LRange(key, 0, -1)\<close>\<close>
  "LRange_all key s = lists s key"

definition RPush :: "string \<Rightarrow> string list \<Rightarrow> server \<Rightarrow> server" where
  "RPush key vs s = s\<lparr>lists := (lists s)(key := lists s key @ vs)\<rparr>"

definition LRem_one :: "string \<Rightarrow> string \<Rightarrow> server \<Rightarrow> server" where
  \<comment> \<open>\<open>LRem(key, 1, v)\<close>: removes the first element equal to \<open>v\<close>, searching from the head\<close>
  "LRem_one key v s = s\<lparr>lists := (lists s)(key := remove1 v (lists s key))\<rparr>"

definition Del :: "string \<Rightarrow> server \<Rightarrow> server" where
  "Del key s = s\<lparr>lists := (lists s)(key := []), hashes := (hashes s)(key := [])\<rparr>"

definition HGet :: "string \<Rightarrow> string \<Rightarrow> server \<Rightarrow> string option" where
  "HGet key field s = map_of (hashes s key) field"

definition HSet :: "string \<Rightarrow> string \<Rightarrow> string \<Rightarrow> server \<Rightarrow> server" where
  "HSet key field v s = s\<lparr>hashes := (hashes s)(key := AList.update field v (hashes s key))\<rparr>"

definition HGetAll :: "string \<Rightarrow> server \<Rightarrow> (string \<times> string) list" where
  "HGetAll key s = hashes s key"

section \<open>The game\<close>

definition cards :: "(string \<times> string) list" where
  \<comment> \<open>(Type, Emoji); the glyphs are written as their code points\<close>
  "cards = [(''Cat'', ''U+1F63C''), (''Defuse'', ''U+1F645 U+200D U+2642 U+FE0F''),
            (''Shuffle'', ''U+1F500''), (''Exploding Kitten'', ''U+1F4A3'')]"

definition canonical_deck :: "string list" where
  "canonical_deck = [''Cat'', ''Cat'', ''Defuse'', ''Shuffle'', ''Exploding Kitten'']"

text \<open>
  For counting: the four kinds of card, the canonical deck as indices into them, and the
  table of the shuffles of those indices, one for each of the 120 sequences of
  \<open>index_choices 4\<close> in their order.
\<close>

definition card_kinds :: "string list" where
  "card_kinds = [''Cat'', ''Defuse'', ''Shuffle'', ''Exploding Kitten'']"

definition kinds :: "nat list" where
  "kinds = [0, 0, 1, 2, 3]"

definition kinds_shuffles :: "nat list list" where
  "kinds_shuffles =
     [[0, 1, 2, 3, 0], [1, 0, 2, 3, 0], [1, 2, 0, 3, 0], [2, 1, 0, 3, 0], [0, 2, 1, 3, 0], [2, 0, 1, 3, 0],
      [2, 1, 3, 0, 0], [1, 2, 3, 0, 0], [1, 3, 2, 0, 0], [3, 1, 2, 0, 0], [2, 3, 1, 0, 0], [3, 2, 1, 0, 0],
      [0, 2, 3, 1, 0], [2, 0, 3, 1, 0], [2, 3, 0, 1, 0], [3, 2, 0, 1, 0], [0, 3, 2, 1, 0], [3, 0, 2, 1, 0],
      [0, 1, 3, 2, 0], [1, 0, 3, 2, 0], [1, 3, 0, 2, 0], [3, 1, 0, 2, 0], [0, 3, 1, 2, 0], [3, 0, 1, 2, 0],
      [3, 1, 2, 0, 0], [1, 3, 2, 0, 0], [1, 2, 3, 0, 0], [2, 1, 3, 0, 0], [3, 2, 1, 0, 0], [2, 3, 1, 0, 0],
      [2, 1, 0, 3, 0], [1, 2, 0, 3, 0], [1, 0, 2, 3, 0], [0, 1, 2, 3, 0], [2, 0, 1, 3, 0], [0, 2, 1, 3, 0],
      [3, 2, 0, 1, 0], [2, 3, 0, 1, 0], [2, 0, 3, 1, 0], [0, 2, 3, 1, 0], [3, 0, 2, 1, 0], [0, 3, 2, 1, 0],
      [3, 1, 0, 2, 0], [1, 3, 0, 2, 0], [1, 0, 3, 2, 0], [0, 1, 3, 2, 0], [3, 0, 1, 2, 0], [0, 3, 1, 2, 0],
      [0, 3, 2, 0, 1], [3, 0, 2, 0, 1], [3, 2, 0, 0, 1], [2, 3, 0, 0, 1], [0, 2, 3, 0, 1], [2, 0, 3, 0, 1],
      [2, 3, 0, 0, 1], [3, 2, 0, 0, 1], [3, 0, 2, 0, 1], [0, 3, 2, 0, 1], [2, 0, 3, 0, 1], [0, 2, 3, 0, 1],
      [0, 2, 0, 3, 1], [2, 0, 0, 3, 1], [2, 0, 0, 3, 1], [0, 2, 0, 3, 1], [0, 0, 2, 3, 1], [0, 0, 2, 3, 1],
      [0, 3, 0, 2, 1], [3, 0, 0, 2, 1], [3, 0, 0, 2, 1], [0, 3, 0, 2, 1], [0, 0, 3, 2, 1], [0, 0, 3, 2, 1],
      [0, 1, 3, 0, 2], [1, 0, 3, 0, 2], [1, 3, 0, 0, 2], [3, 1, 0, 0, 2], [0, 3, 1, 0, 2], [3, 0, 1, 0, 2],
      [3, 1, 0, 0, 2], [1, 3, 0, 0, 2], [1, 0, 3, 0, 2], [0, 1, 3, 0, 2], [3, 0, 1, 0, 2], [0, 3, 1, 0, 2],
      [0, 3, 0, 1, 2], [3, 0, 0, 1, 2], [3, 0, 0, 1, 2], [0, 3, 0, 1, 2], [0, 0, 3, 1, 2], [0, 0, 3, 1, 2],
      [0, 1, 0, 3, 2], [1, 0, 0, 3, 2], [1, 0, 0, 3, 2], [0, 1, 0, 3, 2], [0, 0, 1, 3, 2], [0, 0, 1, 3, 2],
      [0, 1, 2, 0, 3], [1, 0, 2, 0, 3], [1, 2, 0, 0, 3], [2, 1, 0, 0, 3], [0, 2, 1, 0, 3], [2, 0, 1, 0, 3],
      [2, 1, 0, 0, 3], [1, 2, 0, 0, 3], [1, 0, 2, 0, 3], [0, 1, 2, 0, 3], [2, 0, 1, 0, 3], [0, 2, 1, 0, 3],
      [0, 2, 0, 1, 3], [2, 0, 0, 1, 3], [2, 0, 0, 1, 3], [0, 2, 0, 1, 3], [0, 0, 2, 1, 3], [0, 0, 2, 1, 3],
      [0, 1, 0, 2, 3], [1, 0, 0, 2, 3], [1, 0, 0, 2, 3], [0, 1, 0, 2, 3], [0, 0, 1, 2, 3], [0, 0, 1, 2, 3]]"

definition deckKey :: "string \<Rightarrow> string" where
  "deckKey username = ''deck:'' @ username"

definition userKey :: "string \<Rightarrow> string" where
  "userKey username = ''user:'' @ username"

datatype response =
  GameResponse string string "string list"
    \<comment> \<open>status 200 with message, username and deck\<close>
| CardResponse string string
    \<comment> \<open>status 200 with message and card\<close>
| MessageResponse nat string
    \<comment> \<open>another status with a message\<close>

definition initializeDeck :: "string \<Rightarrow> rng \<Rightarrow> server \<Rightarrow> server" where
  "initializeDeck userID g s = RPush (deckKey userID) (Shuffle g canonical_deck) s"

definition startGame :: "string \<Rightarrow> rng \<Rightarrow> server \<Rightarrow> response \<times> server" where
  "startGame username g s =
     (let existingDeck = LRange_all (deckKey username) s
      in if length existingDeck > 0
         then (GameResponse ''Resuming game'' username existingDeck, s)
         else let s1 = initializeDeck username g s;
                  newDeck = LRange_all (deckKey username) s1;
                  s2 = HSet ''win'' username (Itoa 0) s1;
                  s3 = HSet ''lose'' username (Itoa 0) s2
              in (GameResponse ''Game started'' username newDeck, s3))"

text \<open>
  The counter read of \<open>updateUserStats\<close>: an absent field counts as 0, and so does a stored
  string on which \<open>Atoi\<close> reports an error.
\<close>

definition read_count :: "string option \<Rightarrow> int" where
  "read_count v =
     (case v of
        None \<Rightarrow> 0
      | Some str \<Rightarrow> (case Atoi str of (n, None) \<Rightarrow> n | (n, Some e) \<Rightarrow> 0))"

definition updateUserStats :: "string \<Rightarrow> bool \<Rightarrow> server \<Rightarrow> server" where
  "updateUserStats username isWin s =
     (if isWin
      then let winCount = read_count (HGet ''win'' username s);
               newWinCount = int_add winCount 1
           in HSet ''win'' username (Itoa newWinCount) s
      else let loseCount = read_count (HGet ''lose'' username s);
               newLoseCount = int_add loseCount 1
           in HSet ''lose'' username (Itoa newLoseCount) s)"

definition resetGame :: "string \<Rightarrow> rng \<Rightarrow> server \<Rightarrow> server" where
  "resetGame username g s =
     (let deck = Shuffle g canonical_deck;
          randomCards = take 5 deck;
          s1 = Del (deckKey username) s;
          s2 = RPush (deckKey username) randomCards s1
      in HSet (userKey username) ''defuse'' (Itoa 0) s2)"

text \<open>
  The lookup loop at the head of \<open>handleDrawnCard\<close>: the first entry of \<open>cards\<close> whose type
  is the drawn card gives \<open>cardType\<close> and \<open>emoji\<close>; both stay empty when there is none.
\<close>

fun find_card :: "(string \<times> string) list \<Rightarrow> string \<Rightarrow> string \<times> string" where
  "find_card [] drawnCard = ('''', '''')"
| "find_card ((ty, em) # rest) drawnCard =
     (if ty = drawnCard then (ty, em) else find_card rest drawnCard)"

text \<open>
  In the losing branch the program also calls \<open>HSet("defuse:" + username, "false")\<close>: a key
  and a single value, with no field. Redis rejects the command for its number of arguments
  and the program ignores the error, so the call changes nothing.
\<close>

definition defuse_count :: "string \<Rightarrow> server \<Rightarrow> int" where
  \<comment> \<open>\<open>hasDefuse\<close> is the empty string when \<open>HGet\<close> fails; the error of \<open>Atoi\<close> is dropped\<close>
  "defuse_count username s =
     (let hasDefuse = (case HGet (userKey username) ''defuse'' s of None \<Rightarrow> '''' | Some v \<Rightarrow> v)
      in fst (Atoi hasDefuse))"

definition handleDrawnCard :: "string \<Rightarrow> string \<Rightarrow> rng \<Rightarrow> server \<Rightarrow> response \<times> server" where
  "handleDrawnCard drawnCard username g s =
     (let (cardType, emoji) = find_card cards drawnCard
      in if cardType = ''Exploding Kitten'' then
           (let defuseCount = defuse_count username s
            in if defuseCount > 0
               then (CardResponse ''You defused the Exploding Kitten using your Defuse card!'' emoji,
                     HSet (userKey username) ''defuse'' (Itoa 0) s)
               else (CardResponse ''You drew an Exploding Kitten! You lose!'' emoji,
                     updateUserStats username False s))
         else if cardType = ''Defuse'' then
           (CardResponse ''You drew a Defuse card! Keep this to defuse an Exploding Kitten.'' emoji,
            HSet (userKey username) ''defuse'' (Itoa 1) s)
         else if cardType = ''Shuffle'' then
           (CardResponse ''You drew a Shuffle card! The deck is reshuffled.'' emoji,
            resetGame username g s)
         else
           (CardResponse ''You drew a Cat card! One Cat card has been removed from your deck.'' emoji,
            s))"

text \<open>
  \<open>drawCard\<close> takes the raw output \<open>r\<close> behind its \<open>rand.Intn(len(deck))\<close> and the generator
  \<open>g\<close> that \<open>resetGame\<close> would seed. \<open>draw_remove\<close> is the state just before the call of
  \<open>handleDrawnCard\<close>, with the drawn card removed from the list.
\<close>

definition drawn_card :: "string \<Rightarrow> nat \<Rightarrow> server \<Rightarrow> string" where
  "drawn_card username r s =
     (let deck = LRange_all (deckKey username) s;
          cardIndex = Intn r (length deck)
      in deck ! cardIndex)"

definition draw_remove :: "string \<Rightarrow> nat \<Rightarrow> server \<Rightarrow> server" where
  "draw_remove username r s = LRem_one (deckKey username) (drawn_card username r s) s"

definition drawCard :: "string \<Rightarrow> nat \<Rightarrow> rng \<Rightarrow> server \<Rightarrow> response \<times> server" where
  "drawCard username r g s =
     (let deck = LRange_all (deckKey username) s
      in if length deck = 0
         then (MessageResponse 400 ''No cards left in the deck'', updateUserStats username True s)
         else handleDrawnCard (drawn_card username r s) username g (draw_remove username r s))"

section \<open>The leaderboard hub\<close>

text \<open>
  \<open>fetchAllUserStats\<close> ranges over the fields of the \<open>"win"\<close> hash and looks each username
  up in the \<open>"lose"\<close> hash.
\<close>

definition fetchAllUserStats :: "server \<Rightarrow> user_stats list" where
  "fetchAllUserStats s =
     (let winData = HGetAll ''win'' s;
          loseData = HGetAll ''lose'' s
      in map (\<lambda>(username, wins).
                \<lparr>stat_username = username, stat_win = wins,
                 stat_lose = (case map_of loseData username of None \<Rightarrow> ''0'' | Some loses \<Rightarrow> loses)\<rparr>)
             winData)"

text \<open>
  Whether a write to a connection fails is decided by the network: \<open>fails c\<close> says that it
  does. A write to a closed connection fails as well. \<open>WriteJSON\<close> returns whether the write
  succeeded.
\<close>

definition WriteJSON :: "(conn \<Rightarrow> bool) \<Rightarrow> conn \<Rightarrow> user_stats list \<Rightarrow> server \<Rightarrow> bool \<times> server" where
  "WriteJSON fails c v s =
     (if fails c then (False, s)
      else if closed s c then (False, s)
      else (True, s\<lparr>delivered := (delivered s)(c := delivered s c @ [v])\<rparr>))"

definition Close :: "conn \<Rightarrow> server \<Rightarrow> server" where
  "Close c s = s\<lparr>closed := (closed s)(c := True)\<rparr>"

definition delete_client :: "conn \<Rightarrow> server \<Rightarrow> server" where
  \<comment> \<open>\<open>delete(clients, conn)\<close>\<close>
  "delete_client c s = s\<lparr>clients := removeAll c (clients s)\<rparr>"

definition add_client :: "conn \<Rightarrow> server \<Rightarrow> server" where
  \<comment> \<open>\<open>clients[conn] = true\<close>\<close>
  "add_client c s = s\<lparr>clients := (if c \<in> set (clients s) then clients s else clients s @ [c])\<rparr>"

text \<open>The loop of \<open>broadcastLeaderboard\<close> over the connections registered when it starts.\<close>

fun broadcast_loop :: "(conn \<Rightarrow> bool) \<Rightarrow> user_stats list \<Rightarrow> conn list \<Rightarrow> server \<Rightarrow> server" where
  "broadcast_loop fails v [] s = s"
| "broadcast_loop fails v (c # cs) s =
     (case WriteJSON fails c v s of
        (True, s1) \<Rightarrow> broadcast_loop fails v cs s1
      | (False, s1) \<Rightarrow> broadcast_loop fails v cs (delete_client c (Close c s1)))"

definition broadcastLeaderboard :: "(conn \<Rightarrow> bool) \<Rightarrow> server \<Rightarrow> server" where
  "broadcastLeaderboard fails s =
     (let leaderboardData = fetchAllUserStats s
      in broadcast_loop fails leaderboardData (clients s) s)"

definition sendLeaderboard :: "(conn \<Rightarrow> bool) \<Rightarrow> conn \<Rightarrow> server \<Rightarrow> bool \<times> server" where
  "sendLeaderboard fails c s = WriteJSON fails c (fetchAllUserStats s) s"

text \<open>
  \<open>serveWs\<close> registers the connection and sends it the leaderboard; its deferred function
  unregisters and closes the connection when the handler returns, which it does at once when
  that first write fails and otherwise when a read from the connection fails.
\<close>

definition serveWs_exit :: "conn \<Rightarrow> server \<Rightarrow> server" where
  "serveWs_exit c s = Close c (delete_client c s)"

definition serveWs_enter :: "(conn \<Rightarrow> bool) \<Rightarrow> conn \<Rightarrow> server \<Rightarrow> server" where
  "serveWs_enter fails c s =
     (case sendLeaderboard fails c (add_client c s) of
        (True, s1) \<Rightarrow> s1
      | (False, s1) \<Rightarrow> serveWs_exit c s1)"

section \<open>The earlier variant of the game (main2.go)\<close>

text \<open>
  The second source file holds an earlier version of the same handlers, with no counters and
  no use of the defuse card. \<open>initializeDeck\<close> is the same function in both files.
\<close>

definition startGame_main2 :: "string \<Rightarrow> rng \<Rightarrow> server \<Rightarrow> response \<times> server" where
  "startGame_main2 username g s =
     (let existingDeck = LRange_all (deckKey username) s
      in if length existingDeck > 0
         then (GameResponse ''Resuming game'' username existingDeck, s)
         else let s1 = initializeDeck username g s;
                  newDeck = LRange_all (deckKey username) s1
              in (GameResponse ''Game started'' username newDeck, s1))"

definition resetGame_main2 :: "string \<Rightarrow> server \<Rightarrow> server" where
  "resetGame_main2 username s =
     (let deck = canonical_deck;
          s1 = Del (deckKey username) s
      in RPush (deckKey username) deck s1)"

definition handleDrawnCard_main2 :: "string \<Rightarrow> string \<Rightarrow> server \<Rightarrow> response \<times> server" where
  "handleDrawnCard_main2 drawnCard username s =
     (let (cardType, emoji) = find_card cards drawnCard
      in if cardType = ''Exploding Kitten'' then
           (CardResponse ''You drew an Exploding Kitten! You lose!'' emoji, resetGame_main2 username s)
         else if cardType = ''Defuse'' then
           (CardResponse ''You drew a Defuse card! Keep this to defuse an Exploding Kitten.'' emoji,
            HSet (userKey username) ''defuse'' (Itoa 1) s)
         else if cardType = ''Shuffle'' then
           (CardResponse ''You drew a Shuffle card! The deck is reshuffled.'' emoji,
            resetGame_main2 username s)
         else
           (CardResponse ''You drew a Cat card!'' emoji, s))"

definition drawCard_main2 :: "string \<Rightarrow> nat \<Rightarrow> server \<Rightarrow> response \<times> server" where
  "drawCard_main2 username r s =
     (let deck = LRange_all (deckKey username) s
      in if length deck = 0
         then (MessageResponse 400 ''No cards left in the deck'', s)
         else handleDrawnCard_main2 (drawn_card username r s) username (draw_remove username r s))"

section \<open>Observations\<close>

text \<open>
  The counters of a username as \<open>updateUserStats\<close> reads them, the deck as \<open>LRange\<close> returns
  it, and a server with an empty store and no connection.
\<close>

definition wins :: "string \<Rightarrow> server \<Rightarrow> int" where
  "wins username s = read_count (HGet ''win'' username s)"

definition losses :: "string \<Rightarrow> server \<Rightarrow> int" where
  "losses username s = read_count (HGet ''lose'' username s)"

definition deck_of :: "string \<Rightarrow> server \<Rightarrow> string list" where
  "deck_of username s = LRange_all (deckKey username) s"

definition empty_server :: server where
  "empty_server = \<lparr>lists = (\<lambda>key. []), hashes = (\<lambda>key. []), clients = [],
                    delivered = (\<lambda>c. []), closed = (\<lambda>c. False)\<rparr>"

section \<open>States the handlers can reach\<close>

text \<open>
  The states that the handlers produce from the empty server, and the property that every
  username with a field in the \<open>"lose"\<close> hash or with a stored card has a field in the
  \<open>"win"\<close> hash.
\<close>

inductive reachable :: "server \<Rightarrow> bool" where
  reachable_empty: "reachable empty_server"
| reachable_startGame: "reachable s \<Longrightarrow> reachable (snd (startGame username g s))"
| reachable_drawCard: "reachable s \<Longrightarrow> reachable (snd (drawCard username r g s))"
| reachable_serveWs_enter: "reachable s \<Longrightarrow> reachable (serveWs_enter fails c s)"
| reachable_serveWs_exit: "reachable s \<Longrightarrow> reachable (serveWs_exit c s)"
| reachable_broadcast: "reachable s \<Longrightarrow> reachable (broadcastLeaderboard fails s)"

definition players_known :: "server \<Rightarrow> bool" where
  "players_known s =
     (fst ` set (HGetAll ''lose'' s) \<subseteq> fst ` set (HGetAll ''win'' s)
      \<and> (\<forall>u. deck_of u s \<noteq> [] \<longrightarrow> u \<in> fst ` set (HGetAll ''win'' s)))"

section \<open>Example inputs\<close>

text \<open>
  Two generators, one whose raw outputs are all 0 and one whose \<open>k\<close>-th output is \<open>k\<close>, and
  a store in which alice has both counters at 0 and no deck.
\<close>

definition rng_zero :: rng where
  "rng_zero k = 0"

definition rng_index :: rng where
  "rng_index k = k"


text \<open>
  Alice's session as \<open>startGame\<close> creates it from the empty server with the generator
  \<open>rng_index\<close>; the same session with the defuse field set to 1; and the session after she
  has drawn the Defuse card.
\<close>

definition alice_started :: server where
  "alice_started = snd (startGame ''alice'' rng_index empty_server)"

definition alice_charged :: server where
  "alice_charged = HSet (userKey ''alice'') ''defuse'' (Itoa 1) alice_started"

definition alice_defuse :: server where
  "alice_defuse = snd (drawCard ''alice'' 2 rng_zero alice_started)"

text \<open>
  The store after bob, who never started a game, has called \<open>drawCard\<close> once; a store in
  which bob has a field in the \<open>"lose"\<close> hash only; alice's fresh session with connection 7
  registered through \<open>serveWs\<close>, and with connections 1, 2 and 3 registered; a network on which
  no write fails and one on which the writes to connection 2 fail.
\<close>

definition bob_phantom_win :: server where
  "bob_phantom_win = snd (drawCard ''bob'' 0 rng_zero empty_server)"

definition bob_lost :: server where
  "bob_lost = HSet ''lose'' ''bob'' (Itoa 1) empty_server"

definition no_failure :: "conn \<Rightarrow> bool" where
  "no_failure c = False"

definition fails_2 :: "conn \<Rightarrow> bool" where
  "fails_2 c = (c = 2)"

definition alice_watched :: server where
  "alice_watched = serveWs_enter no_failure 7 alice_started"

definition three_clients :: server where
  "three_clients = alice_started\<lparr>clients := [1, 2, 3]\<rparr>"

text \<open>
  In the earlier variant: alice's session after \<open>startGame\<close> with the generator \<open>rng_index\<close>
  and a draw at index 2, her Defuse card.
\<close>

definition alice_main2_defuse :: server where
  "alice_main2_defuse =
     snd (drawCard_main2 ''alice'' 2 (snd (startGame_main2 ''alice'' rng_index empty_server)))"

section \<open>Properties of the library functions\<close>

lemma digits_val_snoc: "digits_val (ds @ [c]) = digits_val ds * 10 + digit_val c"
  by (simp add: digits_val_def)

lemma below_ten: "d < 10 \<Longrightarrow> d \<in> {0, 1, 2, 3, 4, 5, 6, 7, 8, 9::nat}"
  by auto

lemma digit_char_val: "d < 10 \<Longrightarrow> digit_val (digit_char d) = d \<and> is_digit (digit_char d)"
  by (drule below_ten) (auto simp: digit_val_def digit_char_def is_digit_def)

lemma itoa_nat_digits:
  "list_all is_digit (itoa_nat n) \<and> itoa_nat n \<noteq> [] \<and> digits_val (itoa_nat n) = n"
proof (induction n rule: itoa_nat.induct)
  case (1 n)
  show ?case
  proof (cases "n < 10")
    case True
    then have "itoa_nat n = [digit_char n]"
      by (simp add: itoa_nat.simps)
    with True show ?thesis
      by (simp add: digit_char_val digits_val_def)
  next
    case False
    with 1 have ih: "list_all is_digit (itoa_nat (n div 10))"
      "digits_val (itoa_nat (n div 10)) = n div 10"
      by simp_all
    have d: "n mod 10 < 10" by simp
    from False have "itoa_nat n = itoa_nat (n div 10) @ [digit_char (n mod 10)]"
      by (subst itoa_nat.simps) simp
    with ih d show ?thesis
      by (simp add: digits_val_snoc digit_char_val)
  qed
qed

lemma itoa_nat_no_sign: "itoa_nat n = c # r \<Longrightarrow> c \<noteq> CHR ''-'' \<and> c \<noteq> CHR ''+''"
  using itoa_nat_digits [of n] by (auto simp: is_digit_def)

lemma Atoi_itoa_nat: "int n \<le> max_int \<Longrightarrow> Atoi (itoa_nat n) = (int n, None)"
proof -
  assume b: "int n \<le> max_int"
  obtain c r where cr: "itoa_nat n = c # r"
    using itoa_nat_digits [of n] by (cases "itoa_nat n") auto
  from itoa_nat_no_sign [OF cr] itoa_nat_digits [of n] b cr show ?thesis
    by (simp add: Atoi_def)
qed

lemma Atoi_Itoa: "min_int \<le> i \<Longrightarrow> i \<le> max_int \<Longrightarrow> Atoi (Itoa i) = (i, None)"
proof (cases "i < 0")
  case False
  assume "i \<le> max_int"
  with False show ?thesis
    using Atoi_itoa_nat [of "nat i"] by (simp add: Itoa_def)
next
  case True
  assume lo: "min_int \<le> i"
  from True lo itoa_nat_digits [of "nat (- i)"] show ?thesis
    by (simp add: Itoa_def Atoi_def)
qed

lemma Itoa_0: "Itoa 0 = ''0''"
  by (simp add: Itoa_def itoa_nat.simps digit_char_def)

lemma Itoa_1: "Itoa 1 = ''1''"
  by (simp add: Itoa_def itoa_nat.simps digit_char_def)

lemma Atoi_range: "min_int \<le> fst (Atoi str) \<and> fst (Atoi str) \<le> max_int"
  by (auto simp: Atoi_def Let_def min_int_def max_int_def split: list.splits prod.splits)

lemma read_count_range: "min_int \<le> read_count v \<and> read_count v \<le> max_int"
proof (cases v)
  case None
  then show ?thesis by (simp add: read_count_def min_int_def max_int_def)
next
  case (Some str)
  obtain n e where ne: "Atoi str = (n, e)" by (cases "Atoi str")
  with Atoi_range [of str] have "min_int \<le> n \<and> n \<le> max_int" by simp
  with Some ne show ?thesis
    by (cases e) (simp_all add: read_count_def min_int_def max_int_def)
qed

lemma int_add_1: "min_int \<le> n \<Longrightarrow> n < max_int \<Longrightarrow> int_add n 1 = n + 1"
  by (simp add: int_add_def min_int_def max_int_def)

lemma read_count_Itoa: "min_int \<le> i \<Longrightarrow> i \<le> max_int \<Longrightarrow> read_count (Some (Itoa i)) = i"
  by (simp add: read_count_def Atoi_Itoa)

text \<open>Incrementing a counter that is below the largest \<open>int\<close> and writing it back.\<close>

lemma read_count_incr:
  "read_count v < max_int \<Longrightarrow> read_count (Some (Itoa (int_add (read_count v) 1))) = read_count v + 1"
  using read_count_range [of v] by (simp add: int_add_1 read_count_Itoa)

lemma swap_mset: "i < length xs \<Longrightarrow> j < length xs \<Longrightarrow> mset (swap i j xs) = mset xs"
  unfolding swap_def by (cases "i = j") (simp_all add: mset_update nth_mem_mset)

lemma swap_length: "length (swap i j xs) = length xs"
  by (simp add: swap_def)

lemma shuffle_loop_mset: "i < length xs \<Longrightarrow> mset (shuffle_loop g k i xs) = mset xs"
proof (induction i arbitrary: k xs)
  case 0
  show ?case by simp
next
  case (Suc i)
  have "g k mod (Suc i + 1) < Suc i + 1"
    by simp
  with Suc.prems have j: "Intn (g k) (Suc i + 1) < length xs"
    unfolding Intn_def by linarith
  have "mset (shuffle_loop g (Suc k) i (swap (Suc i) (Intn (g k) (Suc i + 1)) xs))
        = mset (swap (Suc i) (Intn (g k) (Suc i + 1)) xs)"
    using Suc.prems by (intro Suc.IH) (simp add: swap_length)
  with j Suc.prems show ?case
    by (simp add: swap_mset)
qed

lemma Shuffle_mset: "mset (Shuffle g xs) = mset xs"
proof (cases xs)
  case Nil
  then show ?thesis by (simp add: Shuffle_def)
next
  case (Cons x xs')
  then show ?thesis
    unfolding Shuffle_def by (intro shuffle_loop_mset) simp
qed

lemma Shuffle_length: "length (Shuffle g xs) = length xs"
  using Shuffle_mset [of g xs] by (metis size_mset)

section \<open>Properties of the Redis commands\<close>

lemma HGet_HSet:
  "HGet k' f' (HSet k f v s) = (if k' = k \<and> f' = f then Some v else HGet k' f' s)"
  by (simp add: HGet_def HSet_def AList.update_conv')

lemma HGetAll_HSet_other: "k' \<noteq> k \<Longrightarrow> HGetAll k' (HSet k f v s) = HGetAll k' s"
  by (simp add: HGetAll_def HSet_def)

lemma fields_HSet:
  "fst ` set (HGetAll k (HSet k f v s)) = insert f (fst ` set (HGetAll k s))"
  by (simp add: HGetAll_def HSet_def AList.dom_update)

lemma distinct_HSet:
  "distinct (map fst (HGetAll k' s)) \<Longrightarrow> distinct (map fst (HGetAll k' (HSet k f v s)))"
  by (auto simp: HGetAll_def HSet_def AList.distinct_update)

lemma HSet_frame:
  "lists (HSet k f v s) = lists s" "clients (HSet k f v s) = clients s"
  "delivered (HSet k f v s) = delivered s" "closed (HSet k f v s) = closed s"
  by (simp_all add: HSet_def)

lemma key_simps:
  "userKey u \<noteq> ''win''" "userKey u \<noteq> ''lose''" "deckKey u \<noteq> ''win''" "deckKey u \<noteq> ''lose''"
  "deckKey u \<noteq> userKey v" "(deckKey u = deckKey v) = (u = v)" "(userKey u = userKey v) = (u = v)"
  by (simp_all add: userKey_def deckKey_def)

section \<open>Frame properties of the game functions\<close>

lemma updateUserStats_frame:
  "lists (updateUserStats u w s) = lists s" "clients (updateUserStats u w s) = clients s"
  "delivered (updateUserStats u w s) = delivered s" "closed (updateUserStats u w s) = closed s"
  by (simp_all add: updateUserStats_def Let_def HSet_frame)

lemma updateUserStats_win:
  "HGet ''win'' v (updateUserStats u True s) =
     (if v = u then Some (Itoa (int_add (wins u s) 1)) else HGet ''win'' v s)"
  "HGet ''lose'' v (updateUserStats u True s) = HGet ''lose'' v s"
  "HGet (userKey v) f (updateUserStats u True s) = HGet (userKey v) f s"
  by (simp_all add: updateUserStats_def Let_def HGet_HSet wins_def key_simps)

lemma updateUserStats_lose:
  "HGet ''lose'' v (updateUserStats u False s) =
     (if v = u then Some (Itoa (int_add (losses u s) 1)) else HGet ''lose'' v s)"
  "HGet ''win'' v (updateUserStats u False s) = HGet ''win'' v s"
  "HGet (userKey v) f (updateUserStats u False s) = HGet (userKey v) f s"
  by (simp_all add: updateUserStats_def Let_def HGet_HSet losses_def key_simps)



lemma recordWin_others: "v \<noteq> u \<Longrightarrow> wins v (updateUserStats u True s) = wins v s"
  by (simp add: wins_def updateUserStats_win)

lemma recordLoss: "losses u s < max_int \<Longrightarrow> losses u (updateUserStats u False s) = losses u s + 1"
  using read_count_incr [of "HGet ''lose'' u s"]
  by (simp add: losses_def updateUserStats_lose)

lemma recordLoss_wins: "wins v (updateUserStats u False s) = wins v s"
  by (simp add: wins_def updateUserStats_lose)

lemma recordLoss_others: "v \<noteq> u \<Longrightarrow> losses v (updateUserStats u False s) = losses v s"
  by (simp add: losses_def updateUserStats_lose)

lemma Atoi_0: "Atoi ''0'' = (0, None)"
  by (simp add: Atoi_def is_digit_def digits_val_def digit_val_def max_int_def min_int_def)




section \<open>Drawing from an empty deck\<close>





section \<open>The effect of each card\<close>

lemma find_card_cards:
  "find_card cards ''Exploding Kitten'' = (''Exploding Kitten'', ''U+1F4A3'')"
  "find_card cards ''Defuse'' = (''Defuse'', ''U+1F645 U+200D U+2642 U+FE0F'')"
  "find_card cards ''Shuffle'' = (''Shuffle'', ''U+1F500'')"
  "find_card cards ''Cat'' = (''Cat'', ''U+1F63C'')"
  by (simp_all add: cards_def)

lemma handle_kitten_lost:
  "defuse_count u s \<le> 0 \<Longrightarrow>
   handleDrawnCard ''Exploding Kitten'' u g s =
     (CardResponse ''You drew an Exploding Kitten! You lose!'' ''U+1F4A3'', updateUserStats u False s)"
  by (simp add: handleDrawnCard_def find_card_cards)

lemma handle_kitten_defused:
  "0 < defuse_count u s \<Longrightarrow>
   handleDrawnCard ''Exploding Kitten'' u g s =
     (CardResponse ''You defused the Exploding Kitten using your Defuse card!'' ''U+1F4A3'',
      HSet (userKey u) ''defuse'' (Itoa 0) s)"
  by (simp add: handleDrawnCard_def find_card_cards)

lemma handle_defuse:
  "handleDrawnCard ''Defuse'' u g s =
     (CardResponse ''You drew a Defuse card! Keep this to defuse an Exploding Kitten.''
        ''U+1F645 U+200D U+2642 U+FE0F'',
      HSet (userKey u) ''defuse'' (Itoa 1) s)"
  by (simp add: handleDrawnCard_def find_card_cards)

lemma handle_shuffle:
  "handleDrawnCard ''Shuffle'' u g s =
     (CardResponse ''You drew a Shuffle card! The deck is reshuffled.'' ''U+1F500'', resetGame u g s)"
  by (simp add: handleDrawnCard_def find_card_cards)

lemma handle_cat:
  "handleDrawnCard ''Cat'' u g s =
     (CardResponse ''You drew a Cat card! One Cat card has been removed from your deck.'' ''U+1F63C'', s)"
  by (simp add: handleDrawnCard_def find_card_cards)

lemma find_card_type: "fst (find_card cs c) = c \<or> fst (find_card cs c) = ''''"
  by (induction cs c rule: find_card.induct) auto

text \<open>Only a Shuffle card makes \<open>handleDrawnCard\<close> touch a list.\<close>

lemma handleDrawnCard_lists:
  "c \<noteq> ''Shuffle'' \<Longrightarrow> lists (snd (handleDrawnCard c u g s)) = lists s"
  using find_card_type [of cards c]
  by (auto simp: handleDrawnCard_def Let_def HSet_frame updateUserStats_frame split: prod.splits)

lemma resetGame_frame:
  "clients (resetGame u g s) = clients s" "delivered (resetGame u g s) = delivered s"
  "closed (resetGame u g s) = closed s"
  by (simp_all add: resetGame_def Let_def HSet_frame RPush_def Del_def)

lemma handleDrawnCard_frame:
  "clients (snd (handleDrawnCard c u g s)) = clients s"
  "delivered (snd (handleDrawnCard c u g s)) = delivered s"
  "closed (snd (handleDrawnCard c u g s)) = closed s"
  by (simp_all add: handleDrawnCard_def Let_def HSet_frame updateUserStats_frame resetGame_frame
        split: prod.splits)

lemma draw_remove_frame:
  "hashes (draw_remove u r s) = hashes s" "clients (draw_remove u r s) = clients s"
  "delivered (draw_remove u r s) = delivered s" "closed (draw_remove u r s) = closed s"
  by (simp_all add: draw_remove_def LRem_one_def)

lemma draw_remove_reads:
  "HGet k f (draw_remove u r s) = HGet k f s" "defuse_count v (draw_remove u r s) = defuse_count v s"
  "wins v (draw_remove u r s) = wins v s" "losses v (draw_remove u r s) = losses v s"
  by (simp_all add: HGet_def defuse_count_def wins_def losses_def draw_remove_frame)

lemma drawCard_nonempty:
  "deck_of u s \<noteq> [] \<Longrightarrow>
   drawCard u r g s = handleDrawnCard (drawn_card u r s) u g (draw_remove u r s)"
  by (simp add: drawCard_def deck_of_def)

lemma drawCard_frame:
  "clients (snd (drawCard u r g s)) = clients s"
  "delivered (snd (drawCard u r g s)) = delivered s"
  "closed (snd (drawCard u r g s)) = closed s"
  by (simp_all add: drawCard_def Let_def handleDrawnCard_frame draw_remove_frame
        updateUserStats_frame)

lemma defuse_count_HSet:
  "min_int \<le> n \<Longrightarrow> n \<le> max_int \<Longrightarrow> defuse_count u (HSet (userKey u) ''defuse'' (Itoa n) s) = n"
  by (simp add: defuse_count_def HGet_HSet Atoi_Itoa)

lemma defuse_count_updateUserStats:
  "defuse_count v (updateUserStats u w s) = defuse_count v s"
  by (cases w) (simp_all add: defuse_count_def updateUserStats_win updateUserStats_lose)

lemma resetGame_deck: "lists (resetGame u g s) (deckKey u) = Shuffle g canonical_deck"
  using Shuffle_length [of g canonical_deck]
  by (simp add: resetGame_def Let_def HSet_frame RPush_def Del_def canonical_deck_def)

lemma resetGame_defuse: "HGet (userKey u) ''defuse'' (resetGame u g s) = Some ''0''"
  by (simp add: resetGame_def Let_def HGet_HSet Itoa_0)

lemma resetGame_defuse_count: "defuse_count u (resetGame u g s) = 0"
  by (simp add: defuse_count_def resetGame_defuse Atoi_0)

section \<open>The example sessions\<close>

lemma Shuffle_rng_index:
  "Shuffle rng_index canonical_deck = [''Exploding Kitten'', ''Shuffle'', ''Defuse'', ''Cat'', ''Cat'']"
  by code_simp

lemma Shuffle_rng_zero:
  "Shuffle rng_zero canonical_deck = [''Cat'', ''Defuse'', ''Shuffle'', ''Exploding Kitten'', ''Cat'']"
  by code_simp

lemma deck_of_HSet: "deck_of v (HSet k f x s) = deck_of v s"
  by (simp add: deck_of_def LRange_all_def HSet_frame)

lemma empty_server_reads:
  "deck_of u empty_server = []" "HGet k f empty_server = None"
  "wins u empty_server = 0" "losses u empty_server = 0" "defuse_count u empty_server = 0"
  by (simp_all add: empty_server_def deck_of_def LRange_all_def HGet_def wins_def losses_def
        read_count_def defuse_count_def Atoi_def)

lemma startGame_new:
  "deck_of u s = [] \<Longrightarrow>
   startGame u g s =
     (GameResponse ''Game started'' u (Shuffle g canonical_deck),
      HSet ''lose'' u ''0'' (HSet ''win'' u ''0'' (RPush (deckKey u) (Shuffle g canonical_deck) s)))"
  by (simp add: startGame_def deck_of_def LRange_all_def initializeDeck_def RPush_def Itoa_0 HSet_frame)

lemma startGame_resume:
  "deck_of u s \<noteq> [] \<Longrightarrow> startGame u g s = (GameResponse ''Resuming game'' u (deck_of u s), s)"
  by (simp add: startGame_def deck_of_def)

lemma deck_of_RPush: "deck_of u (RPush (deckKey u) d s) = deck_of u s @ d"
  by (simp add: deck_of_def LRange_all_def RPush_def)

lemma Atoi_empty: "Atoi [] = (0, Some ErrSyntax)"
  by (simp add: Atoi_def)

lemma deck_of_RPush_empty: "deck_of u (RPush (deckKey u) d empty_server) = d"
  by (simp add: deck_of_RPush empty_server_reads)

lemma HGet_RPush: "HGet k f (RPush k' d s) = HGet k f s"
  by (simp add: HGet_def RPush_def)

lemma alice_started_eq:
  "alice_started =
     HSet ''lose'' ''alice'' ''0'' (HSet ''win'' ''alice'' ''0''
       (RPush (deckKey ''alice'') [''Exploding Kitten'', ''Shuffle'', ''Defuse'', ''Cat'', ''Cat'']
          empty_server))"
  by (simp add: alice_started_def startGame_new empty_server_reads Shuffle_rng_index)

lemma alice_started_deck:
  "deck_of ''alice'' alice_started = [''Exploding Kitten'', ''Shuffle'', ''Defuse'', ''Cat'', ''Cat'']"
  by (simp add: alice_started_eq deck_of_HSet deck_of_RPush_empty)

lemma alice_started_hashes:
  "HGet ''win'' ''alice'' alice_started = Some ''0''"
  "HGet ''lose'' ''alice'' alice_started = Some ''0''"
  "HGet (userKey ''alice'') ''defuse'' alice_started = None"
  by (simp_all add: alice_started_eq HGet_HSet HGet_RPush key_simps empty_server_reads)

lemma alice_started_counts:
  "wins ''alice'' alice_started = 0" "losses ''alice'' alice_started = 0"
  "defuse_count ''alice'' alice_started = 0"
  by (simp_all add: wins_def losses_def defuse_count_def alice_started_hashes read_count_def
        Atoi_0 Atoi_empty)

lemmas alice_started_reads = alice_started_deck alice_started_counts alice_started_hashes

lemma drawn_card_alice_started:
  "drawn_card ''alice'' 0 alice_started = ''Exploding Kitten''"
  "drawn_card ''alice'' 6 alice_started = ''Shuffle''"
  "drawn_card ''alice'' 2 alice_started = ''Defuse''"
  using alice_started_reads(1)
  by (simp_all add: drawn_card_def deck_of_def Intn_def)

lemma deck_of_draw_remove:
  "deck_of u (draw_remove u r s) = remove1 (drawn_card u r s) (deck_of u s)"
  by (simp add: deck_of_def draw_remove_def LRem_one_def LRange_all_def)

lemma deck_of_updateUserStats: "deck_of v (updateUserStats u w s) = deck_of v s"
  by (simp add: deck_of_def LRange_all_def updateUserStats_frame)

section \<open>Drawing the Exploding Kitten without a defuse card\<close>

text \<open>
  Claim C2 at a failing input. Alice starts a game on the empty server and draws at index 0,
  the Exploding Kitten, with no defuse card. The answer is the losing one, her losses counter
  goes from 0 to 1 and her wins counter stays at 0, but the deck is not replaced: it holds
  the four cards that were left, not a fresh deck of five.
\<close>

theorem losing_draw_keeps_the_deck:
  "deck_of ''alice'' alice_started = [''Exploding Kitten'', ''Shuffle'', ''Defuse'', ''Cat'', ''Cat'']
   \<and> defuse_count ''alice'' alice_started = 0
   \<and> drawn_card ''alice'' 0 alice_started = ''Exploding Kitten''
   \<and> fst (drawCard ''alice'' 0 rng_zero alice_started)
       = CardResponse ''You drew an Exploding Kitten! You lose!'' ''U+1F4A3''
   \<and> losses ''alice'' (snd (drawCard ''alice'' 0 rng_zero alice_started)) = 1
   \<and> wins ''alice'' (snd (drawCard ''alice'' 0 rng_zero alice_started)) = 0
   \<and> deck_of ''alice'' (snd (drawCard ''alice'' 0 rng_zero alice_started))
       = [''Shuffle'', ''Defuse'', ''Cat'', ''Cat'']"
proof -
  let ?s = "draw_remove ''alice'' 0 alice_started"
  have ne: "deck_of ''alice'' alice_started \<noteq> []"
    by (simp add: alice_started_reads(1))
  have dc: "drawCard ''alice'' 0 rng_zero alice_started =
      (CardResponse ''You drew an Exploding Kitten! You lose!'' ''U+1F4A3'',
       updateUserStats ''alice'' False ?s)"
    by (simp only: drawCard_nonempty [OF ne] drawn_card_alice_started)
       (simp add: handle_kitten_lost draw_remove_reads alice_started_reads)
  have l: "losses ''alice'' (updateUserStats ''alice'' False ?s) = 1"
    using recordLoss [of "''alice''" ?s]
    by (simp add: draw_remove_reads alice_started_reads max_int_def)
  have w: "wins ''alice'' (updateUserStats ''alice'' False ?s) = 0"
    by (simp add: recordLoss_wins draw_remove_reads alice_started_reads)
  have d: "deck_of ''alice'' (updateUserStats ''alice'' False ?s) = [''Shuffle'', ''Defuse'', ''Cat'', ''Cat'']"
    by (simp add: deck_of_updateUserStats deck_of_draw_remove drawn_card_alice_started
          alice_started_reads)
  from dc l w d show ?thesis
    by (simp add: alice_started_reads drawn_card_alice_started)
qed

lemma one_in_range: "min_int \<le> 1 \<and> 1 \<le> max_int" "min_int \<le> 0 \<and> 0 \<le> max_int"
  by (simp_all add: min_int_def max_int_def)

section \<open>The defuse field\<close>

text \<open>
  Claim C3, as amended. The defuse field is a flag, not a counter. For a draw from a
  non-empty deck: a Defuse card sets it to 1 whatever it was; an Exploding Kitten drawn while
  it is positive sets it to 0; an Exploding Kitten drawn while it is not positive (the losing
  draw) leaves it as it is; a Shuffle card sets it to 0 through \<open>resetGame\<close>; a Cat card
  leaves it as it is.
\<close>

theorem defuse_is_a_flag:
  assumes "deck_of u s \<noteq> []"
  shows "(drawn_card u r s = ''Defuse'' \<longrightarrow> defuse_count u (snd (drawCard u r g s)) = 1)
       \<and> (drawn_card u r s = ''Exploding Kitten'' \<and> 0 < defuse_count u s
            \<longrightarrow> defuse_count u (snd (drawCard u r g s)) = 0)
       \<and> (drawn_card u r s = ''Exploding Kitten'' \<and> defuse_count u s \<le> 0
            \<longrightarrow> defuse_count u (snd (drawCard u r g s)) = defuse_count u s)
       \<and> (drawn_card u r s = ''Shuffle'' \<longrightarrow> defuse_count u (snd (drawCard u r g s)) = 0)
       \<and> (drawn_card u r s = ''Cat'' \<longrightarrow> defuse_count u (snd (drawCard u r g s)) = defuse_count u s)"
proof -
  let ?s = "draw_remove u r s"
  have dc: "drawCard u r g s = handleDrawnCard (drawn_card u r s) u g ?s"
    using assms by (rule drawCard_nonempty)
  have same: "defuse_count u ?s = defuse_count u s"
    by (rule draw_remove_reads)
  have d: "defuse_count u (snd (handleDrawnCard ''Defuse'' u g ?s)) = 1"
    by (simp add: handle_defuse defuse_count_HSet one_in_range)
  have k1: "0 < defuse_count u s \<Longrightarrow>
      defuse_count u (snd (handleDrawnCard ''Exploding Kitten'' u g ?s)) = 0"
    by (simp add: handle_kitten_defused same defuse_count_HSet one_in_range)
  have k2: "defuse_count u s \<le> 0 \<Longrightarrow>
      defuse_count u (snd (handleDrawnCard ''Exploding Kitten'' u g ?s)) = defuse_count u s"
    by (simp add: handle_kitten_lost same defuse_count_updateUserStats)
  have sh: "defuse_count u (snd (handleDrawnCard ''Shuffle'' u g ?s)) = 0"
    by (simp add: handle_shuffle resetGame_defuse_count)
  have c: "defuse_count u (snd (handleDrawnCard ''Cat'' u g ?s)) = defuse_count u s"
    by (simp add: handle_cat same)
  from d k1 k2 sh c show ?thesis
    unfolding dc by auto
qed

lemma alice_charged_reads:
  "deck_of ''alice'' alice_charged = [''Exploding Kitten'', ''Shuffle'', ''Defuse'', ''Cat'', ''Cat'']"
  "defuse_count ''alice'' alice_charged = 1"
  by (simp_all add: alice_charged_def deck_of_HSet alice_started_reads defuse_count_HSet one_in_range)

lemma drawn_card_alice_charged: "drawn_card ''alice'' 2 alice_charged = ''Defuse''"
  using alice_charged_reads(1) by (simp add: drawn_card_def deck_of_def Intn_def)

text \<open>The amended claim C3 at a session whose field is 1 and whose deck holds a Defuse card.\<close>

theorem defuse_is_a_flag_witness:
  "deck_of ''alice'' alice_charged \<noteq> []
   \<and> drawn_card ''alice'' 2 alice_charged = ''Defuse''
   \<and> defuse_count ''alice'' (snd (drawCard ''alice'' 2 rng_zero alice_charged)) = 1"
  using defuse_is_a_flag [of "''alice''" alice_charged 2 rng_zero]
  by (simp add: alice_charged_reads drawn_card_alice_charged)

lemma alice_defuse_eq:
  "alice_defuse = HSet (userKey ''alice'') ''defuse'' (Itoa 1) (draw_remove ''alice'' 2 alice_started)"
  by (simp add: alice_defuse_def drawCard_nonempty alice_started_reads drawn_card_alice_started
        handle_defuse)

lemma alice_defuse_reads:
  "deck_of ''alice'' alice_defuse = [''Exploding Kitten'', ''Shuffle'', ''Cat'', ''Cat'']"
  "defuse_count ''alice'' alice_defuse = 1"
  by (simp_all add: alice_defuse_eq deck_of_HSet deck_of_draw_remove alice_started_reads
        drawn_card_alice_started defuse_count_HSet one_in_range)

lemma drawn_card_alice_defuse: "drawn_card ''alice'' 5 alice_defuse = ''Shuffle''"
  using alice_defuse_reads(1) by (simp add: drawn_card_def deck_of_def Intn_def)

text \<open>
  Claim C3 as stated fails twice. With the field at 1, drawing a Defuse card leaves it at 1
  instead of raising it to 2. And after alice has drawn her Defuse card, drawing the Shuffle
  card takes the field from 1 to 0 although no Exploding Kitten was drawn.
\<close>

theorem defuse_charges_do_not_accumulate:
  "defuse_count ''alice'' alice_charged = 1
   \<and> drawn_card ''alice'' 2 alice_charged = ''Defuse''
   \<and> defuse_count ''alice'' (snd (drawCard ''alice'' 2 rng_zero alice_charged)) \<noteq> 2
   \<and> defuse_count ''alice'' alice_defuse = 1
   \<and> drawn_card ''alice'' 5 alice_defuse = ''Shuffle''
   \<and> defuse_count ''alice'' (snd (drawCard ''alice'' 5 rng_zero alice_defuse)) = 0"
proof -
  have a: "defuse_count ''alice'' (snd (drawCard ''alice'' 2 rng_zero alice_charged)) = 1"
    by (simp add: drawCard_nonempty alice_charged_reads drawn_card_alice_charged handle_defuse
          defuse_count_HSet one_in_range)
  have b: "defuse_count ''alice'' (snd (drawCard ''alice'' 5 rng_zero alice_defuse)) = 0"
    by (simp add: drawCard_nonempty alice_defuse_reads drawn_card_alice_defuse handle_shuffle
          resetGame_defuse_count)
  from a b show ?thesis
    by (simp add: alice_charged_reads drawn_card_alice_charged alice_defuse_reads
          drawn_card_alice_defuse)
qed

section \<open>Every arrangement is a possible shuffle\<close>

text \<open>
  The Fisher-Yates loop can produce every arrangement of its input: for a target \<open>d\<close> with
  the same elements there are raw outputs of the generator that make \<open>Shuffle\<close> return \<open>d\<close>.
\<close>

lemma shuffle_loop_cong:
  assumes "\<forall>m\<ge>k. g m = g' m"
  shows "shuffle_loop g k i xs = shuffle_loop g' k i xs"
  using assms
proof (induction i arbitrary: k xs)
  case 0
  show ?case by simp
next
  case (Suc i)
  from Suc.prems have a: "g k = g' k" and b: "\<forall>m\<ge>Suc k. g m = g' m"
    by auto
  from Suc.IH [OF b] a show ?case
    by simp
qed

lemma swap_nth_left: "i < length xs \<Longrightarrow> j < length xs \<Longrightarrow> swap i j xs ! i = xs ! j"
  by (cases "i = j") (simp_all add: swap_def)

lemma swap_drop: "i < n \<Longrightarrow> j < n \<Longrightarrow> drop n (swap i j xs) = drop n xs"
  by (simp add: swap_def)

lemma mset_take_of_drop:
  assumes "mset ys = mset xs" and "drop n ys = drop n xs"
  shows "mset (take n ys) = mset (take n xs)"
proof -
  from assms(1) have "mset (take n ys @ drop n ys) = mset (take n xs @ drop n xs)"
    by simp
  then have "mset (take n ys) + mset (drop n ys) = mset (take n xs) + mset (drop n xs)"
    by (simp only: mset_append)
  with assms(2) show ?thesis
    by simp
qed

lemma shuffle_loop_reaches:
  assumes "i < length xs" and "length d = length xs"
    and "mset (take (Suc i) d) = mset (take (Suc i) xs)"
    and "drop (Suc i) d = drop (Suc i) xs"
  shows "\<exists>g. shuffle_loop g k i xs = d"
  using assms
proof (induction i arbitrary: xs k)
  case 0
  from "0.prems" have "take (Suc 0) d = take (Suc 0) xs"
    by (cases d; cases xs) simp_all
  with "0.prems"(4) have "d = xs"
    by (metis append_take_drop_id)
  then show ?case
    by simp
next
  case (Suc i)
  let ?v = "d ! Suc i"
  let ?n = "Suc (Suc i)"
  have len: "Suc i < length d"
    using Suc.prems by simp
  have "?v \<in> set (take ?n d)"
    using len by (simp add: in_set_conv_nth) (metis lessI nth_take)
  then have "?v \<in># mset (take ?n xs)"
    using Suc.prems(3) by (metis set_mset_mset)
  then have "?v \<in> set (take ?n xs)"
    by simp
  then obtain j where j: "j < ?n" "xs ! j = ?v"
    using Suc.prems(1) by (auto simp: in_set_conv_nth)
  let ?xs = "swap (Suc i) j xs"
  have jlen: "j < length xs"
    using j(1) Suc.prems(1) by simp
  have l: "length ?xs = length xs"
    by (rule swap_length)
  have at: "?xs ! Suc i = ?v"
    using Suc.prems(1) jlen j(2) by (simp add: swap_nth_left)
  have dr: "drop ?n ?xs = drop ?n xs"
    using j(1) by (simp add: swap_drop)
  have ms: "mset (take ?n ?xs) = mset (take ?n xs)"
    using dr Suc.prems(1) jlen by (intro mset_take_of_drop) (simp_all add: swap_mset)
  have d1: "drop (Suc i) d = drop (Suc i) ?xs"
  proof -
    have "drop (Suc i) d = ?v # drop ?n d"
      using len by (simp add: Cons_nth_drop_Suc)
    moreover have "drop (Suc i) ?xs = ?v # drop ?n ?xs"
      using Suc.prems(1) l at by (metis Cons_nth_drop_Suc)
    ultimately show ?thesis
      using dr Suc.prems(4) by simp
  qed
  have m1: "mset (take (Suc i) d) = mset (take (Suc i) ?xs)"
  proof -
    have "take ?n d = take (Suc i) d @ [?v]"
      using len by (simp add: take_Suc_conv_app_nth)
    moreover have "take ?n ?xs = take (Suc i) ?xs @ [?v]"
      using Suc.prems(1) l at by (metis take_Suc_conv_app_nth)
    ultimately have "add_mset ?v (mset (take (Suc i) d)) = add_mset ?v (mset (take (Suc i) ?xs))"
      using ms Suc.prems(3) by (metis mset.simps(2) mset_append union_mset_add_mset_right add.right_neutral mset.simps(1))
    then show ?thesis
      by simp
  qed
  have "i < length ?xs" "length d = length ?xs"
    using Suc.prems l by simp_all
  from Suc.IH [OF this m1 d1, of "Suc k"]
  obtain g' where g': "shuffle_loop g' (Suc k) i ?xs = d"
    by blast
  let ?g = "g'(k := j)"
  have "shuffle_loop ?g (Suc k) i ?xs = shuffle_loop g' (Suc k) i ?xs"
    by (rule shuffle_loop_cong) simp
  moreover have "Intn (?g k) (Suc i + 1) = j"
    using j(1) by (simp add: Intn_def)
  ultimately have "shuffle_loop ?g k (Suc i) xs = d"
    using g' by simp
  then show ?case
    by blast
qed

lemma Shuffle_reaches: "mset d = mset xs \<Longrightarrow> \<exists>g. Shuffle g xs = d"
proof (cases xs)
  case Nil
  assume "mset d = mset xs"
  with Nil show ?thesis
    by (simp add: Shuffle_def)
next
  case (Cons x xs')
  assume m: "mset d = mset xs"
  then have len: "length d = length xs"
    by (rule mset_eq_length)
  have "\<exists>g. shuffle_loop g 0 (length xs - 1) xs = d"
    using Cons m len by (intro shuffle_loop_reaches) simp_all
  then show ?thesis
    by (simp add: Shuffle_def)
qed

text \<open>
  The result is a function of the indices drawn, and on a list without repetition different
  indices give different results. With \<open>Shuffle_reaches\<close>: the shuffles of \<open>n\<close> distinct
  elements correspond one to one to the \<open>n!\<close> sequences of indices, so indices drawn
  uniformly and independently give each arrangement with the same probability.
\<close>

lemma choices_Suc:
  "choices g k (Suc i) = Intn (g k) (Suc i + 1) # choices g (Suc k) i"
proof -
  have "[0..<Suc i] = 0 # map Suc [0..<i]"
    by (simp add: upt_conv_Cons map_Suc_upt)
  then show ?thesis
    by (simp add: choices_def comp_def)
qed

lemma shuffle_loop_fixes:
  "i < p \<Longrightarrow> p < length xs \<Longrightarrow> shuffle_loop g k i xs ! p = xs ! p"
proof (induction i arbitrary: k xs)
  case 0
  show ?case by simp
next
  case (Suc i)
  let ?j = "Intn (g k) (Suc i + 1)"
  have j: "?j < Suc (Suc i)"
    by (simp add: Intn_def)
  have "shuffle_loop g (Suc k) i (swap (Suc i) ?j xs) ! p = swap (Suc i) ?j xs ! p"
    using Suc.prems by (intro Suc.IH) (simp_all add: swap_length)
  also have "\<dots> = xs ! p"
    using Suc.prems j by (simp add: swap_def)
  finally show ?case
    by simp
qed

lemma shuffle_loop_top:
  assumes "Suc i < length xs"
  shows "shuffle_loop g k (Suc i) xs ! Suc i = xs ! Intn (g k) (Suc i + 1)"
proof -
  let ?j = "Intn (g k) (Suc i + 1)"
  have "?j < Suc (Suc i)"
    by (simp add: Intn_def)
  with assms have j: "?j < length xs"
    by simp
  have "shuffle_loop g (Suc k) i (swap (Suc i) ?j xs) ! Suc i = swap (Suc i) ?j xs ! Suc i"
    using assms by (intro shuffle_loop_fixes) (simp_all add: swap_length)
  with assms j show ?thesis
    by (simp add: swap_nth_left)
qed

text \<open>The result depends on the generator through the choices only.\<close>

lemma shuffle_loop_choices:
  "choices g k i = choices g' k i \<Longrightarrow> shuffle_loop g k i xs = shuffle_loop g' k i xs"
proof (induction i arbitrary: k xs)
  case 0
  show ?case by simp
next
  case (Suc i)
  from Suc.prems have "Intn (g k) (Suc i + 1) = Intn (g' k) (Suc i + 1)"
    and "choices g (Suc k) i = choices g' (Suc k) i"
    by (simp_all add: choices_Suc)
  with Suc.IH show ?case
    by simp
qed

text \<open>On a list without repetition, different choices give different results.\<close>

lemma shuffle_loop_inj:
  assumes "distinct xs" and "i < length xs"
    and "shuffle_loop g k i xs = shuffle_loop g' k i xs"
  shows "choices g k i = choices g' k i"
  using assms
proof (induction i arbitrary: k xs)
  case 0
  show ?case by (simp add: choices_def)
next
  case (Suc i)
  let ?j = "Intn (g k) (Suc i + 1)" and ?j' = "Intn (g' k) (Suc i + 1)"
  have "?j < Suc (Suc i)" "?j' < Suc (Suc i)"
    by (simp_all add: Intn_def)
  with Suc.prems(2) have j: "?j < length xs" "?j' < length xs"
    by simp_all
  have "xs ! ?j = shuffle_loop g k (Suc i) xs ! Suc i"
    using Suc.prems(2) by (simp only: shuffle_loop_top)
  also have "\<dots> = xs ! ?j'"
    using Suc.prems(2,3) by (simp only: shuffle_loop_top)
  finally have same: "?j = ?j'"
    using Suc.prems(1) j by (simp add: nth_eq_iff_index_eq)
  have "distinct (swap (Suc i) ?j xs)"
    using Suc.prems(1,2) j unfolding swap_def by simp
  moreover have "i < length (swap (Suc i) ?j xs)"
    using Suc.prems(2) by (simp add: swap_length)
  moreover have "shuffle_loop g (Suc k) i (swap (Suc i) ?j xs)
      = shuffle_loop g' (Suc k) i (swap (Suc i) ?j xs)"
    using Suc.prems(3) same by simp
  ultimately have "choices g (Suc k) i = choices g' (Suc k) i"
    by (rule Suc.IH)
  with same show ?case
    by (simp add: choices_Suc)
qed

lemma Shuffle_choices:
  "distinct xs \<Longrightarrow>
   (Shuffle g xs = Shuffle g' xs) = (choices g 0 (length xs - 1) = choices g' 0 (length xs - 1))"
proof (cases xs)
  case Nil
  then show ?thesis
    by (simp add: Shuffle_def choices_def)
next
  case (Cons x xs')
  assume "distinct xs"
  with Cons show ?thesis
    unfolding Shuffle_def
    by (auto intro: shuffle_loop_choices dest: shuffle_loop_inj [rotated 2])
qed

section \<open>Resetting the deck\<close>

lemma Shuffle_canonical_length: "length (Shuffle g canonical_deck) = 5"
  by (simp add: Shuffle_length canonical_deck_def)

section \<open>Starting a game\<close>

lemma startGame_new_deck:
  "deck_of u s = [] \<Longrightarrow> deck_of u (snd (startGame u g s)) = Shuffle g canonical_deck"
  by (simp add: startGame_new deck_of_HSet deck_of_RPush)

lemma startGame_frame:
  "clients (snd (startGame u g s)) = clients s" "delivered (snd (startGame u g s)) = delivered s"
  "closed (snd (startGame u g s)) = closed s"
  by (simp_all add: startGame_def Let_def HSet_frame initializeDeck_def RPush_def)

text \<open>
  Claim C6. When no deck is stored for a username, a first \<open>startGame\<close> answers "Game started"
  with a new deck of 5 cards and a second \<open>startGame\<close>, with no draw in between and whatever
  its generator, answers "Resuming game" with the identical deck and leaves the state
  unchanged.
\<close>

theorem startGame_twice:
  assumes "deck_of u s = []"
  shows "\<exists>d. fst (startGame u g s) = GameResponse ''Game started'' u d
           \<and> fst (startGame u g' (snd (startGame u g s))) = GameResponse ''Resuming game'' u d
           \<and> snd (startGame u g' (snd (startGame u g s))) = snd (startGame u g s)
           \<and> deck_of u (snd (startGame u g s)) = d
           \<and> length d = 5"
proof -
  let ?d = "Shuffle g canonical_deck"
  let ?s1 = "snd (startGame u g s)"
  have first: "fst (startGame u g s) = GameResponse ''Game started'' u ?d"
    using assms by (simp add: startGame_new)
  have deck: "deck_of u ?s1 = ?d"
    using assms by (rule startGame_new_deck)
  have len: "length ?d = 5"
    by (rule Shuffle_canonical_length)
  then have "deck_of u ?s1 \<noteq> []"
    using deck by auto
  then have second: "startGame u g' ?s1 = (GameResponse ''Resuming game'' u (deck_of u ?s1), ?s1)"
    by (rule startGame_resume)
  from first second deck len show ?thesis
    by simp
qed

text \<open>Claim C6 for alice on the empty server.\<close>

theorem startGame_twice_witness:
  "deck_of ''alice'' empty_server = []
   \<and> fst (startGame ''alice'' rng_index empty_server)
       = GameResponse ''Game started'' ''alice''
           [''Exploding Kitten'', ''Shuffle'', ''Defuse'', ''Cat'', ''Cat'']
   \<and> fst (startGame ''alice'' rng_zero alice_started)
       = GameResponse ''Resuming game'' ''alice''
           [''Exploding Kitten'', ''Shuffle'', ''Defuse'', ''Cat'', ''Cat'']
   \<and> snd (startGame ''alice'' rng_zero alice_started) = alice_started"
proof -
  from startGame_twice [of "''alice''" empty_server rng_index rng_zero]
  obtain d where d: "fst (startGame ''alice'' rng_index empty_server) = GameResponse ''Game started'' ''alice'' d"
    "fst (startGame ''alice'' rng_zero alice_started) = GameResponse ''Resuming game'' ''alice'' d"
    "snd (startGame ''alice'' rng_zero alice_started) = alice_started"
    "deck_of ''alice'' alice_started = d"
    by (auto simp: empty_server_reads alice_started_def)
  from d(4) have "d = [''Exploding Kitten'', ''Shuffle'', ''Defuse'', ''Cat'', ''Cat'']"
    by (simp add: alice_started_reads)
  with d show ?thesis
    by (simp add: empty_server_reads)
qed

text \<open>The earlier variant of \<open>startGame\<close> behaves the same way.\<close>

lemma startGame_main2_new:
  "deck_of u s = [] \<Longrightarrow>
   startGame_main2 u g s =
     (GameResponse ''Game started'' u (Shuffle g canonical_deck),
      RPush (deckKey u) (Shuffle g canonical_deck) s)"
  by (simp add: startGame_main2_def deck_of_def LRange_all_def initializeDeck_def RPush_def)

lemma startGame_main2_resume:
  "deck_of u s \<noteq> [] \<Longrightarrow>
   startGame_main2 u g s = (GameResponse ''Resuming game'' u (deck_of u s), s)"
  by (simp add: startGame_main2_def deck_of_def)

lemma startGame_main2_twice:
  assumes "deck_of u s = []"
  shows "fst (startGame_main2 u g s) = GameResponse ''Game started'' u (Shuffle g canonical_deck)
       \<and> startGame_main2 u g' (snd (startGame_main2 u g s))
           = (GameResponse ''Resuming game'' u (Shuffle g canonical_deck), snd (startGame_main2 u g s))"
proof -
  let ?s1 = "RPush (deckKey u) (Shuffle g canonical_deck) s"
  have d: "deck_of u ?s1 = Shuffle g canonical_deck"
    using assms by (simp add: deck_of_RPush)
  moreover have "Shuffle g canonical_deck \<noteq> []"
    using Shuffle_canonical_length [of g] by auto
  ultimately have "startGame_main2 u g' ?s1 = (GameResponse ''Resuming game'' u (deck_of u ?s1), ?s1)"
    by (intro startGame_main2_resume) simp
  with d assms show ?thesis
    by (simp add: startGame_main2_new)
qed

section \<open>Removing the drawn card\<close>

lemma drawn_card_in_deck: "deck_of u s \<noteq> [] \<Longrightarrow> drawn_card u r s \<in> set (deck_of u s)"
  by (simp add: drawn_card_def deck_of_def Intn_def Let_def)

lemma remove1_first: "c \<notin> set pre \<Longrightarrow> remove1 c (pre @ c # post) = pre @ post"
  by (simp add: remove1_append)

lemma deck_of_handleDrawnCard:
  "c \<noteq> ''Shuffle'' \<Longrightarrow> deck_of v (snd (handleDrawnCard c u g s)) = deck_of v s"
  by (simp add: deck_of_def LRange_all_def handleDrawnCard_lists)

text \<open>
  Claim C10. A draw from a non-empty deck selects the card at a position and removes from
  the stored list the first card equal to it: the deck is \<open>pre @ card # post\<close> with the card
  not in \<open>pre\<close>, and the list handed to \<open>handleDrawnCard\<close> is \<open>pre @ post\<close>, one card
  shorter, the other cards in their order; it depends on the deck and the selected kind only.
  Unless the card is Shuffle, which then replaces the deck, this is the deck when \<open>drawCard\<close>
  returns.
\<close>

theorem draw_removes_first_occurrence:
  assumes "deck_of u s \<noteq> []"
  shows "\<exists>pre post. deck_of u s = pre @ drawn_card u r s # post
           \<and> drawn_card u r s \<notin> set pre
           \<and> deck_of u (draw_remove u r s) = pre @ post
           \<and> length (deck_of u (draw_remove u r s)) + 1 = length (deck_of u s)
           \<and> (drawn_card u r s \<noteq> ''Shuffle''
                \<longrightarrow> deck_of u (snd (drawCard u r g s)) = pre @ post)"
proof -
  let ?c = "drawn_card u r s"
  from assms have "?c \<in> set (deck_of u s)"
    by (rule drawn_card_in_deck)
  then obtain pre post where split: "deck_of u s = pre @ ?c # post" "?c \<notin> set pre"
    by (auto dest: split_list_first)
  have rem: "deck_of u (draw_remove u r s) = pre @ post"
    using split by (simp add: deck_of_draw_remove remove1_first)
  have len: "length (deck_of u (draw_remove u r s)) + 1 = length (deck_of u s)"
    using split(1) rem by simp
  have fin: "?c \<noteq> ''Shuffle'' \<Longrightarrow> deck_of u (snd (drawCard u r g s)) = pre @ post"
    using assms rem by (simp add: drawCard_nonempty deck_of_handleDrawnCard)
  from split rem len fin show ?thesis
    by blast
qed

text \<open>
  Claim C10 for alice's fresh deck and position 4, the second Cat: the first Cat, at
  position 3, is the one removed.
\<close>

theorem draw_removes_first_occurrence_witness:
  "deck_of ''alice'' alice_started \<noteq> []
   \<and> drawn_card ''alice'' 4 alice_started = ''Cat''
   \<and> deck_of ''alice'' alice_started = [''Exploding Kitten'', ''Shuffle'', ''Defuse'', ''Cat'', ''Cat'']
   \<and> deck_of ''alice'' (snd (drawCard ''alice'' 4 rng_zero alice_started))
       = [''Exploding Kitten'', ''Shuffle'', ''Defuse'', ''Cat'']"
proof -
  have c: "drawn_card ''alice'' 4 alice_started = ''Cat''"
    using alice_started_reads(1) by (simp add: drawn_card_def deck_of_def Intn_def)
  from draw_removes_first_occurrence [of "''alice''" alice_started 4 rng_zero]
  obtain pre post where p:
    "[''Exploding Kitten'', ''Shuffle'', ''Defuse'', ''Cat'', ''Cat''] = pre @ ''Cat'' # post"
    "''Cat'' \<notin> set pre"
    "deck_of ''alice'' (snd (drawCard ''alice'' 4 rng_zero alice_started)) = pre @ post"
    by (auto simp: alice_started_reads c)
  from p(1,2) have "pre = [''Exploding Kitten'', ''Shuffle'', ''Defuse''] \<and> post = [''Cat'']"
    by (auto simp: append_eq_Cons_conv Cons_eq_append_conv)
  with p(3) c show ?thesis
    by (simp add: alice_started_reads)
qed

section \<open>The counters\<close>



lemma resetGame_hashes:
  "k \<noteq> userKey u \<Longrightarrow> k \<noteq> deckKey u \<Longrightarrow> hashes (resetGame u g s) k = hashes s k"
  by (simp add: resetGame_def Let_def HSet_def RPush_def Del_def)

lemma resetGame_counters:
  "HGetAll ''win'' (resetGame u g s) = HGetAll ''win'' s"
  "HGetAll ''lose'' (resetGame u g s) = HGetAll ''lose'' s"
  by (simp_all add: HGetAll_def resetGame_def Let_def HSet_def RPush_def Del_def userKey_def
        deckKey_def)

lemma counters_HSet_user:
  "HGetAll ''win'' (HSet (userKey u) f v s) = HGetAll ''win'' s"
  "HGetAll ''lose'' (HSet (userKey u) f v s) = HGetAll ''lose'' s"
  by (simp_all add: HGetAll_def HSet_def userKey_def)



text \<open>
  What \<open>handleDrawnCard\<close> does to the two counter hashes: the losing draw calls
  \<open>updateUserStats\<close> with \<open>isWin = false\<close>, every other draw leaves both hashes alone.
\<close>

lemma handleDrawnCard_counters:
  "(c = ''Exploding Kitten'' \<and> defuse_count u s \<le> 0
      \<and> snd (handleDrawnCard c u g s) = updateUserStats u False s)
   \<or> (HGetAll ''win'' (snd (handleDrawnCard c u g s)) = HGetAll ''win'' s
      \<and> HGetAll ''lose'' (snd (handleDrawnCard c u g s)) = HGetAll ''lose'' s)"
  using find_card_type [of cards c]
  by (auto simp: handleDrawnCard_def Let_def counters_HSet_user resetGame_counters
        split: prod.splits)

lemma draw_remove_counters:
  "HGetAll k (draw_remove u r s) = HGetAll k s"
  by (simp add: HGetAll_def draw_remove_frame)










lemma bob_phantom_win_eq: "bob_phantom_win = HSet ''win'' ''bob'' ''1'' empty_server"
  by (simp add: bob_phantom_win_def drawCard_def LRange_all_def updateUserStats_def
        empty_server_reads [unfolded deck_of_def LRange_all_def] read_count_def int_add_def
        min_int_def Itoa_1)




section \<open>The broadcast loop\<close>

lemma broadcast_loop_store:
  "lists (broadcast_loop fails v cs s) = lists s \<and> hashes (broadcast_loop fails v cs s) = hashes s"
  by (induction cs arbitrary: s) (auto simp: WriteJSON_def Close_def delete_client_def)

lemma broadcast_loop_closed:
  "closed (broadcast_loop fails v cs s) c = (closed s c \<or> (c \<in> set cs \<and> fails c))"
proof (induction cs arbitrary: s)
  case Nil
  show ?case by simp
next
  case (Cons a cs)
  show ?case
  proof (cases "fails a \<or> closed s a")
    case True
    then have "broadcast_loop fails v (a # cs) s = broadcast_loop fails v cs (delete_client a (Close a s))"
      by (auto simp: WriteJSON_def)
    moreover have "closed (delete_client a (Close a s)) c = (c = a \<or> closed s c)"
      by (simp add: delete_client_def Close_def)
    ultimately show ?thesis
      using True by (auto simp only: Cons.IH set_simps insert_iff)
  next
    case False
    let ?s1 = "s\<lparr>delivered := (delivered s)(a := delivered s a @ [v])\<rparr>"
    from False have "broadcast_loop fails v (a # cs) s = broadcast_loop fails v cs ?s1"
      by (simp add: WriteJSON_def)
    moreover have "closed ?s1 c = closed s c"
      by simp
    ultimately show ?thesis
      using False by (auto simp only: Cons.IH set_simps insert_iff)
  qed
qed

lemma broadcast_loop_clients:
  "(c \<in> set (clients (broadcast_loop fails v cs s))) =
     (c \<in> set (clients s) \<and> \<not> (c \<in> set cs \<and> (fails c \<or> closed s c)))"
  by (induction cs arbitrary: s) (auto simp: WriteJSON_def Close_def delete_client_def)

lemma broadcast_loop_distinct:
  "distinct (clients s) \<Longrightarrow> distinct (clients (broadcast_loop fails v cs s))"
  by (induction cs arbitrary: s) (auto simp: WriteJSON_def Close_def delete_client_def distinct_removeAll)

lemma broadcast_loop_delivered:
  "distinct cs \<Longrightarrow>
   delivered (broadcast_loop fails v cs s) c =
     (if c \<in> set cs \<and> \<not> fails c \<and> \<not> closed s c then delivered s c @ [v] else delivered s c)"
  by (induction cs arbitrary: s) (auto simp: WriteJSON_def Close_def delete_client_def)

text \<open>
  Claim C9. Let the registered connections be distinct, as the keys of a map are. After
  \<open>broadcastLeaderboard\<close>, every registered connection whose write succeeds has received the
  snapshot, exactly once, and is still registered and open; every registered connection
  whose write fails has been unregistered and closed and has received nothing. This holds for
  every set of failing connections, so a failure does not keep the snapshot from the others.
  The function returns no error to its caller and leaves the store unchanged.
\<close>

theorem publish_isolates_failures:
  assumes "distinct (clients s)"
  shows "(\<forall>c \<in> set (clients s).
            if fails c \<or> closed s c
            then c \<notin> set (clients (broadcastLeaderboard fails s))
                 \<and> closed (broadcastLeaderboard fails s) c
                 \<and> delivered (broadcastLeaderboard fails s) c = delivered s c
            else c \<in> set (clients (broadcastLeaderboard fails s))
                 \<and> \<not> closed (broadcastLeaderboard fails s) c
                 \<and> delivered (broadcastLeaderboard fails s) c = delivered s c @ [fetchAllUserStats s])
       \<and> set (clients (broadcastLeaderboard fails s)) \<subseteq> set (clients s)
       \<and> distinct (clients (broadcastLeaderboard fails s))
       \<and> lists (broadcastLeaderboard fails s) = lists s
       \<and> hashes (broadcastLeaderboard fails s) = hashes s"
  using assms
  by (auto simp: broadcastLeaderboard_def Let_def broadcast_loop_store broadcast_loop_closed
        broadcast_loop_clients broadcast_loop_distinct broadcast_loop_delivered)

lemma three_clients_reads:
  "clients three_clients = [1, 2, 3]" "closed three_clients c = False"
  "delivered three_clients c = []"
  by (simp_all add: three_clients_def alice_started_eq HSet_frame RPush_def empty_server_def)

text \<open>Claim C9 for three connections of which the second fails.\<close>

theorem publish_isolates_failures_witness:
  "distinct (clients three_clients)
   \<and> 1 \<in> set (clients (broadcastLeaderboard fails_2 three_clients))
   \<and> delivered (broadcastLeaderboard fails_2 three_clients) 1 = [fetchAllUserStats three_clients]
   \<and> 2 \<notin> set (clients (broadcastLeaderboard fails_2 three_clients))
   \<and> closed (broadcastLeaderboard fails_2 three_clients) 2
   \<and> delivered (broadcastLeaderboard fails_2 three_clients) 2 = []
   \<and> 3 \<in> set (clients (broadcastLeaderboard fails_2 three_clients))
   \<and> delivered (broadcastLeaderboard fails_2 three_clients) 3 = [fetchAllUserStats three_clients]"
  using publish_isolates_failures [of three_clients fails_2]
  by (simp add: three_clients_reads fails_2_def)

section \<open>Draws and the hub\<close>

lemma same_store_reads:
  assumes "lists s' = lists s" and "hashes s' = hashes s"
  shows "deck_of u s' = deck_of u s" and "HGet k f s' = HGet k f s"
    and "HGetAll k s' = HGetAll k s"
    and "wins u s' = wins u s" and "losses u s' = losses u s"
    and "defuse_count u s' = defuse_count u s" and "drawn_card u r s' = drawn_card u r s"
    and "fetchAllUserStats s' = fetchAllUserStats s"
  using assms
  by (simp_all add: deck_of_def LRange_all_def HGet_def HGetAll_def wins_def losses_def
        defuse_count_def drawn_card_def fetchAllUserStats_def)

lemma serveWs_enter_store:
  "lists (serveWs_enter fails c s) = lists s" "hashes (serveWs_enter fails c s) = hashes s"
  by (simp_all add: serveWs_enter_def sendLeaderboard_def WriteJSON_def add_client_def
        serveWs_exit_def Close_def delete_client_def)

lemma alice_started_hub:
  "clients alice_started = []" "delivered alice_started c = []" "closed alice_started c = False"
  by (simp_all add: alice_started_eq HSet_frame RPush_def empty_server_def)

lemma fetchAllUserStats_alice_started:
  "fetchAllUserStats alice_started
     = [\<lparr>stat_username = ''alice'', stat_win = ''0'', stat_lose = ''0''\<rparr>]"
  by (simp add: fetchAllUserStats_def HGetAll_def alice_started_eq HSet_def RPush_def
        empty_server_def)

lemma alice_watched_hub:
  "clients alice_watched = [7]"
  "delivered alice_watched 7 = [[\<lparr>stat_username = ''alice'', stat_win = ''0'', stat_lose = ''0''\<rparr>]]"
  by (simp_all add: alice_watched_def serveWs_enter_def sendLeaderboard_def WriteJSON_def
        add_client_def no_failure_def alice_started_hub fetchAllUserStats_alice_started
        same_store_reads(8) [of "alice_started\<lparr>clients := [7]\<rparr>" alice_started])

lemmas alice_watched_reads =
  same_store_reads [of alice_watched alice_started, unfolded alice_watched_def,
    OF serveWs_enter_store, folded alice_watched_def]

text \<open>
  Claim C7 at a failing input. Connection 7 is registered and has received the snapshot in
  which alice has 0 losses. Alice then draws the Exploding Kitten with no defuse card: her
  losses counter becomes 1 and the leaderboard changes, but nothing is written to
  connection 7. No handler calls \<open>broadcastLeaderboard\<close>.
\<close>

theorem losing_draw_publishes_nothing:
  "clients alice_watched = [7]
   \<and> delivered alice_watched 7
       = [[\<lparr>stat_username = ''alice'', stat_win = ''0'', stat_lose = ''0''\<rparr>]]
   \<and> losses ''alice'' alice_watched = 0
   \<and> fst (drawCard ''alice'' 0 rng_zero alice_watched)
       = CardResponse ''You drew an Exploding Kitten! You lose!'' ''U+1F4A3''
   \<and> losses ''alice'' (snd (drawCard ''alice'' 0 rng_zero alice_watched)) = 1
   \<and> fetchAllUserStats (snd (drawCard ''alice'' 0 rng_zero alice_watched))
       = [\<lparr>stat_username = ''alice'', stat_win = ''0'', stat_lose = ''1''\<rparr>]
   \<and> delivered (snd (drawCard ''alice'' 0 rng_zero alice_watched)) 7
       = [[\<lparr>stat_username = ''alice'', stat_win = ''0'', stat_lose = ''0''\<rparr>]]"
proof -
  let ?s = "draw_remove ''alice'' 0 alice_watched"
  have ne: "deck_of ''alice'' alice_watched \<noteq> []"
    by (simp add: alice_watched_reads alice_started_reads)
  have dc: "drawCard ''alice'' 0 rng_zero alice_watched =
      (CardResponse ''You drew an Exploding Kitten! You lose!'' ''U+1F4A3'',
       updateUserStats ''alice'' False ?s)"
    by (simp only: drawCard_nonempty [OF ne] alice_watched_reads drawn_card_alice_started)
       (simp add: handle_kitten_lost draw_remove_reads alice_watched_reads alice_started_reads)
  have l: "losses ''alice'' (updateUserStats ''alice'' False ?s) = 1"
    using recordLoss [of "''alice''" ?s]
    by (simp add: draw_remove_reads alice_watched_reads alice_started_reads max_int_def)
  have w: "HGetAll ''win'' (updateUserStats ''alice'' False ?s) = [(''alice'', ''0'')]"
    by (simp add: updateUserStats_def Let_def HGetAll_HSet_other draw_remove_counters
          alice_watched_reads)
       (simp add: HGetAll_def alice_started_eq HSet_def RPush_def empty_server_def)
  have lo: "HGetAll ''lose'' (updateUserStats ''alice'' False ?s) = [(''alice'', ''1'')]"
    by (simp add: updateUserStats_def Let_def HGet_def HGetAll_def HSet_def draw_remove_frame
          alice_watched_reads [unfolded HGetAll_def]
          alice_started_eq RPush_def empty_server_def read_count_def Atoi_0 int_add_def
          min_int_def Itoa_1)
  have f: "fetchAllUserStats (updateUserStats ''alice'' False ?s)
      = [\<lparr>stat_username = ''alice'', stat_win = ''0'', stat_lose = ''1''\<rparr>]"
    by (simp add: fetchAllUserStats_def w lo)
  have d: "delivered (snd (drawCard ''alice'' 0 rng_zero alice_watched)) 7 = delivered alice_watched 7"
    by (simp add: drawCard_frame)
  from dc l f d show ?thesis
    by (simp add: alice_watched_hub alice_watched_reads alice_started_reads)
qed

section \<open>The leaderboard snapshot\<close>

text \<open>
  Claim C8, as amended. The snapshot has one record for each field of the \<open>"win"\<close> hash, in
  the order of the fields, so exactly one per username since the fields of a hash are
  distinct. Each record carries the stored wins string and the stored losses string, or "0"
  when the \<open>"lose"\<close> hash has no field for the username. A username with no field in the
  \<open>"win"\<close> hash has no record, also when it has a field in the \<open>"lose"\<close> hash.
\<close>

theorem snapshot_ranges_over_wins:
  "map stat_username (fetchAllUserStats s) = map fst (HGetAll ''win'' s)
   \<and> (\<forall>x \<in> set (fetchAllUserStats s).
         HGet ''win'' (stat_username x) s \<noteq> None
         \<and> (stat_username x, stat_win x) \<in> set (HGetAll ''win'' s)
         \<and> stat_lose x = (case HGet ''lose'' (stat_username x) s of None \<Rightarrow> ''0'' | Some l \<Rightarrow> l))
   \<and> (\<forall>u. HGet ''win'' u s = None \<longrightarrow> u \<notin> stat_username ` set (fetchAllUserStats s))
   \<and> (distinct (map fst (HGetAll ''win'' s)) \<longrightarrow>
         distinct (map stat_username (fetchAllUserStats s))
         \<and> (\<forall>x \<in> set (fetchAllUserStats s). HGet ''win'' (stat_username x) s = Some (stat_win x)))"
proof -
  have names: "map stat_username (fetchAllUserStats s) = map fst (HGetAll ''win'' s)"
    by (simp add: fetchAllUserStats_def Let_def case_prod_unfold comp_def)
  have recs: "\<forall>x \<in> set (fetchAllUserStats s).
      (stat_username x, stat_win x) \<in> set (HGetAll ''win'' s)
      \<and> stat_lose x = (case HGet ''lose'' (stat_username x) s of None \<Rightarrow> ''0'' | Some l \<Rightarrow> l)"
    by (auto simp: fetchAllUserStats_def Let_def HGet_def HGetAll_def)
  have present: "\<forall>x \<in> set (fetchAllUserStats s). HGet ''win'' (stat_username x) s \<noteq> None"
  proof
    fix x assume "x \<in> set (fetchAllUserStats s)"
    with recs have "(stat_username x, stat_win x) \<in> set (HGetAll ''win'' s)"
      by blast
    then have "stat_username x \<in> fst ` set (HGetAll ''win'' s)"
      by force
    then show "HGet ''win'' (stat_username x) s \<noteq> None"
      by (simp add: HGet_def HGetAll_def map_of_eq_None_iff)
  qed
  have absent: "\<forall>u. HGet ''win'' u s = None \<longrightarrow> u \<notin> stat_username ` set (fetchAllUserStats s)"
    using present by auto
  have dist: "distinct (map fst (HGetAll ''win'' s)) \<longrightarrow>
      distinct (map stat_username (fetchAllUserStats s))
      \<and> (\<forall>x \<in> set (fetchAllUserStats s). HGet ''win'' (stat_username x) s = Some (stat_win x))"
    using recs by (auto simp: names HGet_def HGetAll_def)
  from names recs present absent dist show ?thesis
    by blast
qed

lemma bob_lost_reads:
  "HGet ''lose'' ''bob'' bob_lost = Some ''1''" "HGetAll ''win'' bob_lost = []"
  "HGetAll ''lose'' bob_lost = [(''bob'', ''1'')]"
  by (simp_all add: bob_lost_def Itoa_1 HGet_def HGetAll_def HSet_def empty_server_def)

text \<open>
  Claim C8 as stated fails: bob is present in the \<open>"lose"\<close> hash only, and the snapshot is
  empty.
\<close>

theorem lose_only_user_is_missing:
  "HGet ''lose'' ''bob'' bob_lost = Some ''1''
   \<and> HGetAll ''lose'' bob_lost = [(''bob'', ''1'')]
   \<and> fetchAllUserStats bob_lost = []"
  by (simp add: bob_lost_reads fetchAllUserStats_def)

lemma bob_phantom_win_hashes:
  "HGetAll ''win'' bob_phantom_win = [(''bob'', ''1'')]" "HGetAll ''lose'' bob_phantom_win = []"
  by (simp_all add: bob_phantom_win_eq HGetAll_def HSet_def empty_server_def)

text \<open>
  The amended claim C8 at the store in which bob is present in the \<open>"win"\<close> hash only: his
  record reports 0 losses.
\<close>

theorem snapshot_ranges_over_wins_witness:
  "distinct (map fst (HGetAll ''win'' bob_phantom_win))
   \<and> HGetAll ''lose'' bob_phantom_win = []
   \<and> map stat_username (fetchAllUserStats bob_phantom_win) = [''bob'']
   \<and> fetchAllUserStats bob_phantom_win
       = [\<lparr>stat_username = ''bob'', stat_win = ''1'', stat_lose = ''0''\<rparr>]"
  using snapshot_ranges_over_wins [of bob_phantom_win]
  by (simp add: bob_phantom_win_hashes fetchAllUserStats_def)

section \<open>The counters and the deck in the earlier variant\<close>

text \<open>
  In main2.go a draw from an empty deck changes nothing, and the losing draw resets the
  deck to the canonical order, unshuffled, and records nothing.
\<close>

lemma drawCard_main2_empty:
  "deck_of u s = [] \<Longrightarrow> drawCard_main2 u r s = (MessageResponse 400 ''No cards left in the deck'', s)"
  by (simp add: drawCard_main2_def deck_of_def)

lemma resetGame_main2_deck: "deck_of u (resetGame_main2 u s) = canonical_deck"
  by (simp add: resetGame_main2_def deck_of_def LRange_all_def RPush_def Del_def)

lemma resetGame_main2_hashes: "k \<noteq> deckKey u \<Longrightarrow> hashes (resetGame_main2 u s) k = hashes s k"
  by (simp add: resetGame_main2_def RPush_def Del_def)

lemma resetGame_main2_reads:
  "defuse_count v (resetGame_main2 u s) = defuse_count v s"
  "wins v (resetGame_main2 u s) = wins v s" "losses v (resetGame_main2 u s) = losses v s"
  by (simp_all add: defuse_count_def wins_def losses_def HGet_def resetGame_main2_def RPush_def
        Del_def deckKey_def userKey_def)

lemma handleDrawnCard_main2_kitten:
  "handleDrawnCard_main2 ''Exploding Kitten'' u s =
     (CardResponse ''You drew an Exploding Kitten! You lose!'' ''U+1F4A3'', resetGame_main2 u s)"
  by (simp add: handleDrawnCard_main2_def find_card_cards)

section \<open>An invariant of the reachable states\<close>

lemma deck_of_resetGame:
  "deck_of v (resetGame u g s) = (if v = u then Shuffle g canonical_deck else deck_of v s)"
  using Shuffle_canonical_length [of g]
  by (simp add: deck_of_def LRange_all_def resetGame_def Let_def HSet_frame RPush_def Del_def
        key_simps)

lemma deck_of_draw_remove_other: "v \<noteq> u \<Longrightarrow> deck_of v (draw_remove u r s) = deck_of v s"
  by (simp add: deck_of_def LRange_all_def draw_remove_def LRem_one_def key_simps)

lemma fields_updateUserStats:
  "fst ` set (HGetAll ''win'' (updateUserStats u True s)) = insert u (fst ` set (HGetAll ''win'' s))"
  "fst ` set (HGetAll ''lose'' (updateUserStats u True s)) = fst ` set (HGetAll ''lose'' s)"
  "fst ` set (HGetAll ''lose'' (updateUserStats u False s)) = insert u (fst ` set (HGetAll ''lose'' s))"
  "fst ` set (HGetAll ''win'' (updateUserStats u False s)) = fst ` set (HGetAll ''win'' s)"
  by (simp_all add: updateUserStats_def Let_def HGetAll_def HSet_def AList.dom_update)

lemma players_known_startGame: "players_known s \<Longrightarrow> players_known (snd (startGame u g s))"
proof (cases "deck_of u s = []")
  case False
  assume "players_known s"
  with False show ?thesis
    by (simp add: startGame_resume)
next
  case True
  let ?d = "Shuffle g canonical_deck"
  let ?s' = "HSet ''lose'' u ''0'' (HSet ''win'' u ''0'' (RPush (deckKey u) ?d s))"
  assume inv: "players_known s"
  have w: "fst ` set (HGetAll ''win'' ?s') = insert u (fst ` set (HGetAll ''win'' s))"
    by (simp add: HGetAll_def HSet_def RPush_def AList.dom_update)
  have l: "fst ` set (HGetAll ''lose'' ?s') = insert u (fst ` set (HGetAll ''lose'' s))"
    by (simp add: HGetAll_def HSet_def RPush_def AList.dom_update)
  have d: "\<And>v. v \<noteq> u \<Longrightarrow> deck_of v ?s' = deck_of v s"
    by (simp add: deck_of_def LRange_all_def HSet_frame RPush_def key_simps)
  have "players_known ?s'"
    unfolding players_known_def w l
  proof (intro conjI allI impI)
    from inv show "insert u (fst ` set (HGetAll ''lose'' s)) \<subseteq> insert u (fst ` set (HGetAll ''win'' s))"
      by (auto simp: players_known_def)
  next
    fix v assume ne: "deck_of v ?s' \<noteq> []"
    show "v \<in> insert u (fst ` set (HGetAll ''win'' s))"
    proof (cases "v = u")
      case True
      then show ?thesis by simp
    next
      case False
      with ne d [of v] inv show ?thesis
        by (simp add: players_known_def)
    qed
  qed
  with True show ?thesis
    by (simp add: startGame_new)
qed

lemma players_known_handleDrawnCard:
  assumes inv: "players_known s0" and win: "u \<in> fst ` set (HGetAll ''win'' s0)"
    and h: "HGetAll ''win'' s = HGetAll ''win'' s0" "HGetAll ''lose'' s = HGetAll ''lose'' s0"
    and d: "\<And>v. v \<noteq> u \<Longrightarrow> deck_of v s = deck_of v s0"
  shows "players_known (snd (handleDrawnCard c u g s))"
proof -
  let ?s' = "snd (handleDrawnCard c u g s)"
  have decks: "\<And>v. v \<noteq> u \<Longrightarrow> deck_of v ?s' = deck_of v s0"
  proof -
    fix v assume "v \<noteq> u"
    then show "deck_of v ?s' = deck_of v s0"
      using d [of v] by (cases "c = ''Shuffle''")
        (simp_all add: handle_shuffle deck_of_resetGame deck_of_handleDrawnCard)
  qed
  have known: "\<forall>v. deck_of v ?s' \<noteq> [] \<longrightarrow> v \<in> fst ` set (HGetAll ''win'' s0)"
  proof (intro allI impI)
    fix v assume "deck_of v ?s' \<noteq> []"
    then show "v \<in> fst ` set (HGetAll ''win'' s0)"
      using decks [of v] win inv by (cases "v = u") (auto simp: players_known_def)
  qed
  from handleDrawnCard_counters [of c u s g] show ?thesis
  proof (elim disjE conjE)
    assume "?s' = updateUserStats u False s"
    then have "fst ` set (HGetAll ''win'' ?s') = fst ` set (HGetAll ''win'' s0)"
      and "fst ` set (HGetAll ''lose'' ?s') = insert u (fst ` set (HGetAll ''lose'' s0))"
      by (simp_all add: fields_updateUserStats h)
    with known win inv show ?thesis
      by (auto simp: players_known_def)
  next
    assume "HGetAll ''win'' ?s' = HGetAll ''win'' s" "HGetAll ''lose'' ?s' = HGetAll ''lose'' s"
    with known h inv show ?thesis
      by (auto simp: players_known_def)
  qed
qed

lemma players_known_drawCard: "players_known s \<Longrightarrow> players_known (snd (drawCard u r g s))"
proof (cases "deck_of u s = []")
  case True
  assume inv: "players_known s"
  have "deck_of v (updateUserStats u True s) = deck_of v s" for v
    by (rule deck_of_updateUserStats)
  with inv have "players_known (updateUserStats u True s)"
    by (auto simp: players_known_def fields_updateUserStats)
  with True show ?thesis
    by (simp add: drawCard_def deck_of_def)
next
  case False
  assume inv: "players_known s"
  with False have "u \<in> fst ` set (HGetAll ''win'' s)"
    by (simp add: players_known_def)
  with inv have "players_known (snd (handleDrawnCard (drawn_card u r s) u g (draw_remove u r s)))"
    by (rule players_known_handleDrawnCard)
       (simp_all add: draw_remove_counters deck_of_draw_remove_other)
  with False show ?thesis
    by (simp add: drawCard_nonempty)
qed

lemma HGetAll_empty: "HGetAll k empty_server = []"
  by (simp add: HGetAll_def empty_server_def)

lemma players_known_same_store:
  "players_known s \<Longrightarrow> lists s' = lists s \<Longrightarrow> hashes s' = hashes s \<Longrightarrow> players_known s'"
  by (simp add: players_known_def deck_of_def LRange_all_def HGetAll_def)

lemma serveWs_exit_store:
  "lists (serveWs_exit c s) = lists s" "hashes (serveWs_exit c s) = hashes s"
  by (simp_all add: serveWs_exit_def Close_def delete_client_def)

lemma broadcastLeaderboard_store:
  "lists (broadcastLeaderboard fails s) = lists s" "hashes (broadcastLeaderboard fails s) = hashes s"
  by (simp_all add: broadcastLeaderboard_def Let_def broadcast_loop_store)

lemma reachable_players_known: "reachable s \<Longrightarrow> players_known s"
proof (induction rule: reachable.induct)
  case reachable_empty
  show ?case
    by (simp add: players_known_def empty_server_reads HGetAll_empty)
next
  case (reachable_startGame s username g)
  then show ?case by (simp add: players_known_startGame)
next
  case (reachable_drawCard s username r g)
  then show ?case by (simp add: players_known_drawCard)
next
  case (reachable_serveWs_enter s fails c)
  from reachable_serveWs_enter.IH show ?case
    by (rule players_known_same_store) (simp_all add: serveWs_enter_store)
next
  case (reachable_serveWs_exit s c)
  from reachable_serveWs_exit.IH show ?case
    by (rule players_known_same_store) (simp_all add: serveWs_exit_store)
next
  case (reachable_broadcast s fails)
  from reachable_broadcast.IH show ?case
    by (rule players_known_same_store) (simp_all add: broadcastLeaderboard_store)
qed

text \<open>
  In a state that the handlers reach from the empty server, every username of the
  \<open>"lose"\<close> hash is a username of the \<open>"win"\<close> hash, so the snapshot has a record for every
  username of either hash.
\<close>

lemma reachable_snapshot_complete:
  "reachable s \<Longrightarrow>
   stat_username ` set (fetchAllUserStats s)
     = fst ` set (HGetAll ''win'' s) \<union> fst ` set (HGetAll ''lose'' s)"
proof -
  assume "reachable s"
  then have "fst ` set (HGetAll ''lose'' s) \<subseteq> fst ` set (HGetAll ''win'' s)"
    using reachable_players_known by (simp add: players_known_def)
  moreover have "stat_username ` set (fetchAllUserStats s) = fst ` set (HGetAll ''win'' s)"
    by (simp add: fetchAllUserStats_def Let_def image_image case_prod_unfold)
  ultimately show ?thesis
    by auto
qed

section \<open>The losing draw\<close>

text \<open>
  The losing draw in general: the answer, the counters, and the deck, which is the old deck
  without one Exploding Kitten and so one card shorter than before.
\<close>

lemma losing_draw:
  assumes "deck_of u s \<noteq> []" and "drawn_card u r s = ''Exploding Kitten''"
    and "defuse_count u s \<le> 0" and "losses u s < max_int"
  shows "fst (drawCard u r g s) = CardResponse ''You drew an Exploding Kitten! You lose!'' ''U+1F4A3''"
    and "losses u (snd (drawCard u r g s)) = losses u s + 1"
    and "wins u (snd (drawCard u r g s)) = wins u s"
    and "deck_of u (snd (drawCard u r g s)) = remove1 ''Exploding Kitten'' (deck_of u s)"
    and "length (deck_of u (snd (drawCard u r g s))) + 1 = length (deck_of u s)"
proof -
  let ?s = "draw_remove u r s"
  have dc: "drawCard u r g s =
      (CardResponse ''You drew an Exploding Kitten! You lose!'' ''U+1F4A3'', updateUserStats u False ?s)"
    using assms(1,2,3) by (simp add: drawCard_nonempty handle_kitten_lost draw_remove_reads)
  show "fst (drawCard u r g s) = CardResponse ''You drew an Exploding Kitten! You lose!'' ''U+1F4A3''"
    by (simp add: dc)
  have "losses u ?s < max_int"
    using assms(4) by (simp add: draw_remove_reads)
  then show "losses u (snd (drawCard u r g s)) = losses u s + 1"
    by (simp add: dc recordLoss draw_remove_reads)
  show "wins u (snd (drawCard u r g s)) = wins u s"
    by (simp add: dc recordLoss_wins draw_remove_reads)
  show d: "deck_of u (snd (drawCard u r g s)) = remove1 ''Exploding Kitten'' (deck_of u s)"
    using assms(2) by (simp add: dc deck_of_updateUserStats deck_of_draw_remove)
  have "''Exploding Kitten'' \<in> set (deck_of u s)"
    using drawn_card_in_deck [OF assms(1), of r] assms(2) by simp
  then show "length (deck_of u (snd (drawCard u r g s))) + 1 = length (deck_of u s)"
    by (simp add: d length_remove1) (metis length_pos_if_in_set Suc_pred)
qed

section \<open>The shuffle as a permutation of positions\<close>

lemma swap_map: "i < length xs \<Longrightarrow> j < length xs \<Longrightarrow> swap i j (map f xs) = map f (swap i j xs)"
  by (simp add: swap_def map_update)

lemma shuffle_loop_map:
  "i < length xs \<Longrightarrow> shuffle_loop g k i (map f xs) = map f (shuffle_loop g k i xs)"
proof (induction i arbitrary: k xs)
  case 0
  show ?case by simp
next
  case (Suc i)
  let ?j = "Intn (g k) (Suc i + 1)"
  have "g k mod (Suc i + 1) < Suc i + 1"
    by simp
  with Suc.prems have j: "?j < length xs"
    unfolding Intn_def by linarith
  have "shuffle_loop g (Suc k) i (map f (swap (Suc i) ?j xs))
      = map f (shuffle_loop g (Suc k) i (swap (Suc i) ?j xs))"
    using Suc.prems by (intro Suc.IH) (simp add: swap_length)
  with Suc.prems j show ?case
    by (simp add: swap_map)
qed

lemma Shuffle_map: "Shuffle g (map f xs) = map f (Shuffle g xs)"
proof (cases xs)
  case Nil
  then show ?thesis by (simp add: Shuffle_def)
next
  case (Cons x xs')
  then have "length xs - 1 < length xs"
    by simp
  from shuffle_loop_map [OF this, of g 0 f] show ?thesis
    unfolding Shuffle_def by simp
qed

lemma canonical_deck_positions: "canonical_deck = map ((!) canonical_deck) [0..<5]"
  by (simp add: canonical_deck_def upt_conv_Cons)

section \<open>The sequences of indices\<close>

lemma index_choices_Cons:
  "(j # js \<in> set (index_choices (Suc i))) = (j < Suc i + 1 \<and> js \<in> set (index_choices i))"
  by (auto simp del: upt_Suc)

lemma index_choices_Suc_elim:
  "js \<in> set (index_choices (Suc i)) \<Longrightarrow>
   \<exists>j js'. js = j # js' \<and> j < Suc i + 1 \<and> js' \<in> set (index_choices i)"
  by (auto simp del: upt_Suc)

lemma choices_in_range: "choices g k i \<in> set (index_choices i)"
proof (induction i arbitrary: k)
  case 0
  show ?case by (simp add: choices_def)
next
  case (Suc i)
  have "Intn (g k) (Suc i + 1) < Suc i + 1"
    by (simp add: Intn_def)
  with Suc.IH [of "Suc k"] show ?case
    by (simp only: choices_Suc index_choices_Cons)
qed

lemma choices_shift: "choices g (Suc k) i = choices (\<lambda>m. g (Suc m)) k i"
  by (simp add: choices_def)

lemma rng_of_Cons: "(\<lambda>m. rng_of (j # js) (Suc m)) = rng_of js"
  by (rule ext) (simp add: rng_of_def)

lemma choices_rng_of: "js \<in> set (index_choices i) \<Longrightarrow> choices (rng_of js) 0 i = js"
proof (induction i arbitrary: js)
  case 0
  then show ?case by (simp add: choices_def)
next
  case (Suc i)
  then obtain j js' where js: "js = j # js'" "j < Suc i + 1" "js' \<in> set (index_choices i)"
    using index_choices_Suc_elim [of js i] by blast
  have "choices (rng_of js) (Suc 0) i = choices (rng_of js') 0 i"
    by (simp only: choices_shift js(1) rng_of_Cons)
  with Suc.IH [OF js(3)] have "choices (rng_of js) (Suc 0) i = js'"
    by simp
  moreover have "Intn (rng_of js 0) (Suc i + 1) = j"
    using js(1,2) by (simp add: rng_of_def Intn_def)
  ultimately show ?case
    by (simp add: choices_Suc js(1))
qed

lemma Shuffle_by_choices: "Shuffle g xs = Shuffle (rng_of (choices g 0 (length xs - 1))) xs"
  unfolding Shuffle_def
  by (rule shuffle_loop_choices) (simp add: choices_rng_of choices_in_range)

lemma index_choices_4: "length (index_choices 4) = 120 \<and> distinct (index_choices 4)"
  by code_simp

text \<open>
  On a list without repetition, the sequences of indices and the arrangements correspond one
  to one.
\<close>

lemma Shuffle_bij:
  assumes "distinct xs"
  shows "bij_betw (\<lambda>js. Shuffle (rng_of js) xs) (set (index_choices (length xs - 1)))
           {p. mset p = mset xs}"
  unfolding bij_betw_def
proof (intro conjI)
  let ?n = "length xs - 1"
  show "inj_on (\<lambda>js. Shuffle (rng_of js) xs) (set (index_choices ?n))"
  proof (rule inj_onI)
    fix js js'
    assume a: "js \<in> set (index_choices ?n)" "js' \<in> set (index_choices ?n)"
      and e: "Shuffle (rng_of js) xs = Shuffle (rng_of js') xs"
    from e assms have "choices (rng_of js) 0 ?n = choices (rng_of js') 0 ?n"
      by (simp add: Shuffle_choices)
    with a show "js = js'"
      by (simp add: choices_rng_of)
  qed
  show "(\<lambda>js. Shuffle (rng_of js) xs) ` set (index_choices ?n) = {p. mset p = mset xs}"
  proof (intro equalityI subsetI)
    fix p assume "p \<in> (\<lambda>js. Shuffle (rng_of js) xs) ` set (index_choices ?n)"
    then show "p \<in> {p. mset p = mset xs}"
      by (auto simp: Shuffle_mset)
  next
    fix p assume "p \<in> {p. mset p = mset xs}"
    then obtain g where g: "Shuffle g xs = p"
      using Shuffle_reaches [of p xs] by auto
    then have "Shuffle (rng_of (choices g 0 ?n)) xs = p"
      by (simp only: Shuffle_by_choices [symmetric])
    then show "p \<in> (\<lambda>js. Shuffle (rng_of js) xs) ` set (index_choices ?n)"
      using choices_in_range [of g 0 ?n] by blast
  qed
qed

section \<open>Counting the shuffles of the canonical deck\<close>

text \<open>The table is what the shuffle computes, and each of its entries occurs twice.\<close>

lemma kinds_shuffles_eq:
  "map (\<lambda>js. Shuffle (rng_of js) kinds) (index_choices 4) = kinds_shuffles"
  by code_simp

lemma kinds_shuffles_twice: "list_all (\<lambda>d. count_list kinds_shuffles d = 2) kinds_shuffles"
  by code_simp


lemma canonical_deck_kinds: "canonical_deck = map ((!) card_kinds) kinds"
  by (simp add: canonical_deck_def card_kinds_def kinds_def)

lemma card_kinds_inj: "inj_on ((!) card_kinds) {0, 1, 2, 3}"
  by (simp add: card_kinds_def inj_on_def)

lemma Shuffle_kinds_set: "set (Shuffle g kinds) \<subseteq> {0, 1, 2, 3}"
proof -
  have "set (Shuffle g kinds) = set kinds"
    using Shuffle_mset [of g kinds] by (rule mset_eq_setD)
  then show ?thesis
    by (simp add: kinds_def)
qed

lemma Shuffle_canonical_kinds:
  "(Shuffle g canonical_deck = Shuffle g' canonical_deck) = (Shuffle g kinds = Shuffle g' kinds)"
proof -
  have "inj_on ((!) card_kinds) (set (Shuffle g kinds) \<union> set (Shuffle g' kinds))"
    using Shuffle_kinds_set [of g] Shuffle_kinds_set [of g']
    by (intro inj_on_subset [OF card_kinds_inj]) auto
  then show ?thesis
    by (simp add: canonical_deck_kinds Shuffle_map inj_on_map_eq_map)
qed

lemma length_filter_count: "length (filter (\<lambda>x. f x = d) xs) = count_list (map f xs) d"
  by (induction xs) auto

lemma kinds_shuffles_count: "count_list kinds_shuffles (Shuffle g kinds) = 2"
proof -
  have l: "length kinds - 1 = 4"
    by (simp add: kinds_def)
  have "Shuffle g kinds = Shuffle (rng_of (choices g 0 4)) kinds"
    using Shuffle_by_choices [of g kinds] unfolding l .
  moreover have "choices g 0 4 \<in> set (index_choices 4)"
    by (rule choices_in_range)
  ultimately have "Shuffle g kinds \<in> (\<lambda>js. Shuffle (rng_of js) kinds) ` set (index_choices 4)"
    by (rule image_eqI)
  then have "Shuffle g kinds \<in> set (map (\<lambda>js. Shuffle (rng_of js) kinds) (index_choices 4))"
    by (simp only: set_map)
  then have "Shuffle g kinds \<in> set kinds_shuffles"
    by (simp only: kinds_shuffles_eq)
  with kinds_shuffles_twice show ?thesis
    by (simp add: list_all_iff)
qed

text \<open>
  Every arrangement of the canonical deck is the result for exactly 2 of the 120 sequences
  of indices.
\<close>

lemma canonical_arrangement_twice:
  assumes "mset d = mset canonical_deck"
  shows "length (filter (\<lambda>js. Shuffle (rng_of js) canonical_deck = d) (index_choices 4)) = 2"
proof -
  from assms obtain g where g: "Shuffle g canonical_deck = d"
    using Shuffle_reaches [of d canonical_deck] by auto
  have "filter (\<lambda>js. Shuffle (rng_of js) canonical_deck = d) (index_choices 4)
      = filter (\<lambda>js. Shuffle (rng_of js) kinds = Shuffle g kinds) (index_choices 4)"
    by (simp only: g [symmetric] Shuffle_canonical_kinds)
  then show ?thesis
    by (simp only: length_filter_count kinds_shuffles_eq kinds_shuffles_count)
qed

section \<open>The reset in the two variants\<close>

lemma handleDrawnCard_main2_shuffle:
  "handleDrawnCard_main2 ''Shuffle'' u s =
     (CardResponse ''You drew a Shuffle card! The deck is reshuffled.'' ''U+1F500'', resetGame_main2 u s)"
  by (simp add: handleDrawnCard_main2_def find_card_cards)

lemma handleDrawnCard_main2_defuse:
  "handleDrawnCard_main2 ''Defuse'' u s =
     (CardResponse ''You drew a Defuse card! Keep this to defuse an Exploding Kitten.''
        ''U+1F645 U+200D U+2642 U+FE0F'',
      HSet (userKey u) ''defuse'' (Itoa 1) s)"
  by (simp add: handleDrawnCard_main2_def find_card_cards)

lemma drawCard_main2_nonempty:
  "deck_of u s \<noteq> [] \<Longrightarrow>
   drawCard_main2 u r s = handleDrawnCard_main2 (drawn_card u r s) u (draw_remove u r s)"
  by (simp add: drawCard_main2_def deck_of_def)

lemma drawCard_shuffle:
  "deck_of u s \<noteq> [] \<Longrightarrow> drawn_card u r s = ''Shuffle'' \<Longrightarrow>
   snd (drawCard u r g s) = resetGame u g (draw_remove u r s)"
  by (simp add: drawCard_nonempty handle_shuffle)

lemma resetGame_by_choices:
  "deck_of u (resetGame u g s) = Shuffle (rng_of (choices g 0 4)) canonical_deck"
proof -
  have l: "length canonical_deck - 1 = 4"
    by (simp add: canonical_deck_def)
  have "Shuffle g canonical_deck = Shuffle (rng_of (choices g 0 4)) canonical_deck"
    using Shuffle_by_choices [of g canonical_deck] unfolding l .
  then show ?thesis
    by (simp add: deck_of_def LRange_all_def resetGame_deck)
qed

lemma resetGame_delete_create:
  "resetGame u g s = HSet (userKey u) ''defuse'' ''0'' (initializeDeck u g (Del (deckKey u) s))"
  by (simp add: resetGame_def initializeDeck_def Let_def Itoa_0 Shuffle_canonical_length)

lemma alice_main2_started:
  "snd (startGame_main2 ''alice'' rng_index empty_server)
     = RPush (deckKey ''alice'') [''Exploding Kitten'', ''Shuffle'', ''Defuse'', ''Cat'', ''Cat'']
         empty_server"
  by (simp add: startGame_main2_new empty_server_reads Shuffle_rng_index)

lemma alice_main2_defuse_eq:
  "alice_main2_defuse =
     HSet (userKey ''alice'') ''defuse'' (Itoa 1)
       (draw_remove ''alice'' 2
          (RPush (deckKey ''alice'') [''Exploding Kitten'', ''Shuffle'', ''Defuse'', ''Cat'', ''Cat'']
             empty_server))"
proof -
  let ?s = "RPush (deckKey ''alice'') [''Exploding Kitten'', ''Shuffle'', ''Defuse'', ''Cat'', ''Cat'']
    empty_server"
  have d: "deck_of ''alice'' ?s = [''Exploding Kitten'', ''Shuffle'', ''Defuse'', ''Cat'', ''Cat'']"
    by (rule deck_of_RPush_empty)
  then have c: "drawn_card ''alice'' 2 ?s = ''Defuse''"
    by (simp add: drawn_card_def deck_of_def Intn_def)
  from d have "deck_of ''alice'' ?s \<noteq> []"
    by simp
  then show ?thesis
    by (simp add: alice_main2_defuse_def alice_main2_started drawCard_main2_nonempty c
          handleDrawnCard_main2_defuse)
qed

lemma alice_main2_defuse_reads:
  "deck_of ''alice'' alice_main2_defuse = [''Exploding Kitten'', ''Shuffle'', ''Cat'', ''Cat'']"
  "defuse_count ''alice'' alice_main2_defuse = 1"
proof -
  let ?s = "RPush (deckKey ''alice'') [''Exploding Kitten'', ''Shuffle'', ''Defuse'', ''Cat'', ''Cat'']
    empty_server"
  have d: "deck_of ''alice'' ?s = [''Exploding Kitten'', ''Shuffle'', ''Defuse'', ''Cat'', ''Cat'']"
    by (rule deck_of_RPush_empty)
  then have c: "drawn_card ''alice'' 2 ?s = ''Defuse''"
    by (simp add: drawn_card_def deck_of_def Intn_def)
  show "deck_of ''alice'' alice_main2_defuse = [''Exploding Kitten'', ''Shuffle'', ''Cat'', ''Cat'']"
    by (simp add: alice_main2_defuse_eq deck_of_HSet deck_of_draw_remove c d)
  show "defuse_count ''alice'' alice_main2_defuse = 1"
    by (simp add: alice_main2_defuse_eq defuse_count_HSet one_in_range)
qed

lemma drawn_card_alice_main2_defuse: "drawn_card ''alice'' 5 alice_main2_defuse = ''Shuffle''"
  using alice_main2_defuse_reads(1) by (simp add: drawn_card_def deck_of_def Intn_def)

lemma drawn_card_alice_started_5: "drawn_card ''alice'' 5 alice_started = ''Exploding Kitten''"
  using alice_started_reads(1) by (simp add: drawn_card_def deck_of_def Intn_def)

text \<open>
  Claim C4, as amended. In part_000 a drawn Shuffle card resets the deck with \<open>resetGame\<close>.
  The new deck has the 5 cards of the canonical composition, in the order that the indices
  drawn by the shuffle determine: the indices form one of 120 sequences, and every
  arrangement of the composition is the result for exactly 2 of them, so the shuffle is
  uniform over the arrangements when the indices are drawn uniformly. The state is the one
  obtained by deleting the deck key, creating a deck with \<open>initializeDeck\<close> and writing 0 to
  the defuse field, and the defuse count is 0 afterwards. In main2.go both a Shuffle card and
  the losing draw reset the deck with the earlier \<open>resetGame\<close>, which stores the canonical
  composition in its fixed order and leaves the defuse count as it is.
\<close>

theorem resetGame_by_variant:
  "(deck_of u s \<noteq> [] \<and> drawn_card u r s = ''Shuffle''
      \<longrightarrow> snd (drawCard u r g s) = resetGame u g (draw_remove u r s))
   \<and> mset (deck_of u (resetGame u g s)) = mset canonical_deck
   \<and> length (deck_of u (resetGame u g s)) = 5
   \<and> deck_of u (resetGame u g s) = Shuffle (rng_of (choices g 0 4)) canonical_deck
   \<and> choices g 0 4 \<in> set (index_choices 4)
   \<and> length (index_choices 4) = 120
   \<and> distinct (index_choices 4)
   \<and> (\<forall>d. mset d = mset canonical_deck \<longrightarrow>
         length (filter (\<lambda>js. Shuffle (rng_of js) canonical_deck = d) (index_choices 4)) = 2)
   \<and> resetGame u g s = HSet (userKey u) ''defuse'' ''0'' (initializeDeck u g (Del (deckKey u) s))
   \<and> defuse_count u (resetGame u g s) = 0
   \<and> snd (handleDrawnCard_main2 ''Shuffle'' u s) = resetGame_main2 u s
   \<and> snd (handleDrawnCard_main2 ''Exploding Kitten'' u s) = resetGame_main2 u s
   \<and> deck_of u (resetGame_main2 u s) = canonical_deck
   \<and> defuse_count u (resetGame_main2 u s) = defuse_count u s"
proof -
  have d: "deck_of u (resetGame u g s) = Shuffle g canonical_deck"
    by (simp add: deck_of_def LRange_all_def resetGame_deck)
  have m: "mset (deck_of u (resetGame u g s)) = mset canonical_deck"
    by (simp add: d Shuffle_mset)
  have l: "length (deck_of u (resetGame u g s)) = 5"
    by (simp add: d Shuffle_canonical_length)
  have t: "deck_of u s \<noteq> [] \<and> drawn_card u r s = ''Shuffle''
      \<longrightarrow> snd (drawCard u r g s) = resetGame u g (draw_remove u r s)"
    by (simp add: drawCard_shuffle)
  have c: "\<forall>d. mset d = mset canonical_deck \<longrightarrow>
      length (filter (\<lambda>js. Shuffle (rng_of js) canonical_deck = d) (index_choices 4)) = 2"
    by (simp add: canonical_arrangement_twice)
  have m2: "snd (handleDrawnCard_main2 ''Shuffle'' u s) = resetGame_main2 u s"
    "snd (handleDrawnCard_main2 ''Exploding Kitten'' u s) = resetGame_main2 u s"
    by (simp_all add: handleDrawnCard_main2_shuffle handleDrawnCard_main2_kitten)
  from t m l c m2 resetGame_by_choices [of u g s] choices_in_range [of g 0 4] index_choices_4
    resetGame_delete_create [of u g s] resetGame_defuse_count [of u g s]
    resetGame_main2_deck [of u s] resetGame_main2_reads(1) [of u u s]
  show ?thesis
    by blast
qed

text \<open>
  The amended claim C4 at alice's session after her Defuse card: she draws the Shuffle card,
  the generator is \<open>rng_zero\<close>.
\<close>

theorem resetGame_by_variant_witness:
  "deck_of ''alice'' alice_defuse \<noteq> []
   \<and> drawn_card ''alice'' 5 alice_defuse = ''Shuffle''
   \<and> defuse_count ''alice'' alice_defuse = 1
   \<and> snd (drawCard ''alice'' 5 rng_zero alice_defuse)
       = resetGame ''alice'' rng_zero (draw_remove ''alice'' 5 alice_defuse)
   \<and> deck_of ''alice'' (resetGame ''alice'' rng_zero (draw_remove ''alice'' 5 alice_defuse))
       = [''Cat'', ''Defuse'', ''Shuffle'', ''Exploding Kitten'', ''Cat'']
   \<and> defuse_count ''alice'' (resetGame ''alice'' rng_zero (draw_remove ''alice'' 5 alice_defuse)) = 0
   \<and> length (filter (\<lambda>js. Shuffle (rng_of js) canonical_deck
                          = [''Cat'', ''Defuse'', ''Shuffle'', ''Exploding Kitten'', ''Cat''])
                (index_choices 4)) = 2"
proof -
  let ?s = "draw_remove ''alice'' 5 alice_defuse"
  let ?d = "[''Cat'', ''Defuse'', ''Shuffle'', ''Exploding Kitten'', ''Cat'']"
  have ne: "deck_of ''alice'' alice_defuse \<noteq> []"
    by (simp add: alice_defuse_reads)
  note sh = drawn_card_alice_defuse
  from resetGame_by_variant [of "''alice''" alice_defuse 5 rng_zero] ne sh
  have trig: "snd (drawCard ''alice'' 5 rng_zero alice_defuse) = resetGame ''alice'' rng_zero ?s"
    by blast
  have deck: "deck_of ''alice'' (resetGame ''alice'' rng_zero ?s) = ?d"
    by (simp add: deck_of_def LRange_all_def resetGame_deck Shuffle_rng_zero)
  from resetGame_by_variant [of "''alice''" ?s 5 rng_zero]
  have perm: "mset (deck_of ''alice'' (resetGame ''alice'' rng_zero ?s)) = mset canonical_deck"
    and zero: "defuse_count ''alice'' (resetGame ''alice'' rng_zero ?s) = 0"
    and twice: "\<forall>d. mset d = mset canonical_deck \<longrightarrow>
      length (filter (\<lambda>js. Shuffle (rng_of js) canonical_deck = d) (index_choices 4)) = 2"
    by blast+
  from perm deck have "mset ?d = mset canonical_deck"
    by simp
  with twice have cnt: "length (filter (\<lambda>js. Shuffle (rng_of js) canonical_deck = ?d) (index_choices 4)) = 2"
    by blast
  from ne sh alice_defuse_reads(2) trig deck zero cnt show ?thesis
    by blast
qed

text \<open>
  Claim C4 as stated fails in both variants. In main2.go alice draws her Defuse card and
  then the Shuffle card: the reset leaves the deck in the fixed canonical order and the
  defuse count at 1. In part_000 alice's losing draw is not followed by a reset: 4 cards
  remain.
\<close>

theorem reset_differs_from_claim:
  "defuse_count ''alice'' alice_main2_defuse = 1
   \<and> drawn_card ''alice'' 5 alice_main2_defuse = ''Shuffle''
   \<and> deck_of ''alice'' (snd (drawCard_main2 ''alice'' 5 alice_main2_defuse))
       = [''Cat'', ''Cat'', ''Defuse'', ''Shuffle'', ''Exploding Kitten'']
   \<and> defuse_count ''alice'' (snd (drawCard_main2 ''alice'' 5 alice_main2_defuse)) = 1
   \<and> drawn_card ''alice'' 5 alice_started = ''Exploding Kitten''
   \<and> defuse_count ''alice'' alice_started = 0
   \<and> length (deck_of ''alice'' (snd (drawCard ''alice'' 5 rng_zero alice_started))) = 4"
proof -
  let ?s = "draw_remove ''alice'' 5 alice_main2_defuse"
  have ne: "deck_of ''alice'' alice_main2_defuse \<noteq> []"
    by (simp add: alice_main2_defuse_reads)
  have dc: "snd (drawCard_main2 ''alice'' 5 alice_main2_defuse) = resetGame_main2 ''alice'' ?s"
    by (simp add: drawCard_main2_nonempty [OF ne] drawn_card_alice_main2_defuse
          handleDrawnCard_main2_shuffle)
  have deck: "deck_of ''alice'' (snd (drawCard_main2 ''alice'' 5 alice_main2_defuse))
      = [''Cat'', ''Cat'', ''Defuse'', ''Shuffle'', ''Exploding Kitten'']"
    by (simp add: dc resetGame_main2_deck canonical_deck_def)
  have def: "defuse_count ''alice'' (snd (drawCard_main2 ''alice'' 5 alice_main2_defuse)) = 1"
    by (simp add: dc resetGame_main2_reads draw_remove_reads alice_main2_defuse_reads)
  have "deck_of ''alice'' alice_started \<noteq> []"
    by (simp add: alice_started_reads)
  from losing_draw(5) [OF this drawn_card_alice_started_5, of rng_zero]
  have "length (deck_of ''alice'' (snd (drawCard ''alice'' 5 rng_zero alice_started))) + 1 = 5"
    by (simp add: alice_started_reads max_int_def)
  then have four: "length (deck_of ''alice'' (snd (drawCard ''alice'' 5 rng_zero alice_started))) = 4"
    by simp
  from deck def four show ?thesis
    by (simp add: alice_main2_defuse_reads drawn_card_alice_main2_defuse
          drawn_card_alice_started_5 alice_started_reads)
qed

end
